theory Spec2Isabelle
  imports Main "HOL-Library.Word" "HOL-Library.Monad_Syntax"
begin

unbundle bit_operations_syntax

section \<open>Data model of the Yamaha YMW-258-F (MultiPCM) core\<close>

text \<open>
  The embedding follows \<^verbatim>\<open>src/devices/sound/multipcm.cpp\<close>. The class declaration
  (\<^verbatim>\<open>multipcm.h\<close>) is not among the sources, so the records below list the members the
  code uses, with the widths the code treats them with: \<^verbatim>\<open>uint32_t\<close> and \<^verbatim>\<open>int32_t\<close>
  are both \<open>32 word\<close> (\<open>+\<close>, \<open>-\<close>, \<open>*\<close> wrap; a signed member is read with \<open>sint\<close>,
  compared with \<open>\<le>s\<close> and shifted right with \<open>signed_drop_bit\<close>), \<^verbatim>\<open>uint8_t\<close> is
  \<open>8 word\<close>.

  The three shift constants \<^verbatim>\<open>TL_SHIFT\<close>, \<^verbatim>\<open>EG_SHIFT\<close> and \<^verbatim>\<open>LFO_SHIFT\<close> are declared
  in the missing header as well: they are parameters of the model (fields of \<open>chip\<close>).
  So are the tables that \<^verbatim>\<open>device_start\<close> fills by floating-point arithmetic, the
  conversion \<^verbatim>\<open>pitch / m_rate\<close> (an integer divided by the \<^verbatim>\<open>float\<close> sample rate and
  truncated back to an integer) and the ROM behind \<^verbatim>\<open>read_byte\<close>.
\<close>

type_synonym u8 = "8 word"
type_synonym u16 = "16 word"
type_synonym u32 = "32 word"
type_synonym s32 = "32 word"

datatype state_t = ATTACK | DECAY1 | DECAY2 | RELEASE

record sample_t =
  m_start :: u32
  m_loop :: u32
  m_end :: u32
  m_attack_reg :: u8
  m_decay1_reg :: u8
  m_decay2_reg :: u8
  m_decay_level :: u8
  m_release_reg :: u8
  m_key_rate_scale :: u8
  m_lfo_vibrato_reg :: u8
  m_lfo_amplitude_reg :: u8
  m_format :: u8

text \<open>
  \<^verbatim>\<open>envelope_gen_t\<close>. Its member \<^verbatim>\<open>m_decay_level\<close> is \<open>m_decay_level_eg\<close> here (the
  sample descriptor has a member of the same name), and its member \<^verbatim>\<open>step\<close>, which the
  code only registers for save states, is \<open>step_eg\<close>.
\<close>

record envelope_gen_t =
  m_volume :: s32
  m_state :: state_t
  step_eg :: s32
  m_attack_rate :: s32
  m_decay1_rate :: s32
  m_decay2_rate :: s32
  m_release_rate :: s32
  m_decay_level_eg :: s32

text \<open>
  \<^verbatim>\<open>lfo_t\<close>. \<^verbatim>\<open>m_table\<close> and \<^verbatim>\<open>m_scale\<close> point into tables of the device that never
  change after start-up, so the model holds the table itself; the null pointer of a
  fresh voice is the empty list.
\<close>

record lfo_t =
  m_phase :: u16
  m_phase_step :: u32
  m_table :: "s32 list"
  m_scale :: "s32 list"

text \<open>\<^verbatim>\<open>slot_t\<close>, one voice. Its member \<^verbatim>\<open>m_format\<close> is \<open>m_format_slot\<close> here.\<close>

record slot_t =
  m_regs :: "u8 list"
  m_playing :: bool
  m_base :: u32
  m_offset :: u32
  m_step :: u32
  m_pan :: u32
  m_total_level :: u32
  m_dest_total_level :: u32
  m_total_level_step :: s32
  m_prev_sample :: s32
  m_format_slot :: u8
  m_sample :: sample_t
  m_envelope_gen :: envelope_gen_t
  m_pitch_lfo :: lfo_t
  m_amplitude_lfo :: lfo_t

text \<open>
  The constants and tables of one device, fixed after \<^verbatim>\<open>device_start\<close>:
  \<^item> \<open>m_attack_step\<close>, \<open>m_decay_release_step\<close>: \<open>0x40\<close> entries each;
  \<^item> \<open>m_freq_step_table\<close>, \<open>m_linear_to_exp_volume\<close>: \<open>0x400\<close> entries each;
  \<^item> \<open>m_left_pan_table\<close>, \<open>m_right_pan_table\<close>: \<open>0x800\<close> entries each;
  \<^item> \<open>m_total_level_steps\<close>: 2 entries (lower, raise);
  \<^item> \<open>m_pitch_scale_tables\<close>, \<open>m_amplitude_scale_tables\<close>: 8 tables of 256 entries;
  \<^item> \<open>div_rate p\<close> is \<^verbatim>\<open>pitch / m_rate\<close> converted to \<^verbatim>\<open>uint32_t\<close>;
  \<^item> \<open>lfo_phase_step f\<close> is
    \<^verbatim>\<open>uint32_t(float(1 << LFO_SHIFT) * (LFO_FREQ[f] * 256.0f / m_rate))\<close>.
\<close>

record chip =
  TL_SHIFT :: nat
  EG_SHIFT :: nat
  LFO_SHIFT :: nat
  read_byte :: "u32 \<Rightarrow> u8"
  div_rate :: "u32 \<Rightarrow> u32"
  lfo_phase_step :: "nat \<Rightarrow> u32"
  m_attack_step :: "u32 list"
  m_decay_release_step :: "u32 list"
  m_freq_step_table :: "u32 list"
  m_left_pan_table :: "s32 list"
  m_right_pan_table :: "s32 list"
  m_linear_to_exp_volume :: "s32 list"
  m_total_level_steps :: "s32 list"
  m_pitch_scale_tables :: "s32 list list"
  m_amplitude_scale_tables :: "s32 list list"

text \<open>The mutable state of the device: the 28 voices and the two bus latches.\<close>

record device =
  m_slots :: "slot_t list"
  m_cur_slot :: s32
  m_address :: u32

text \<open>
  A subscript the code neither masks nor clamps can leave its array, which C++ leaves
  undefined. The model makes that visible: \<open>at_index\<close> is \<open>None\<close> outside the array, and
  every function that contains such a subscript returns an option. Subscripts that are
  constants or masked to the size of the table are read with \<open>!\<close>.
\<close>

definition at_index :: "'a list \<Rightarrow> int \<Rightarrow> 'a option" where
  "at_index xs i = (if 0 \<le> i \<and> i < int (length xs) then Some (xs ! nat i) else None)"

definition VALUE_TO_CHANNEL :: "s32 list" where
  "VALUE_TO_CHANNEL =
     [0, 1, 2, 3, 4, 5, 6, - 1,
      7, 8, 9, 10, 11, 12, 13, - 1,
      14, 15, 16, 17, 18, 19, 20, - 1,
      21, 22, 23, 24, 25, 26, 27, - 1]"

section \<open>Sample descriptor\<close>

definition init_sample :: "chip \<Rightarrow> u32 \<Rightarrow> sample_t" where
  "init_sample c index =
     (let address = index * 12;
          rb = (\<lambda>k. (ucast (read_byte c (address + k)) :: u32));
          start = push_bit 16 (rb 0) OR push_bit 8 (rb 1) OR rb 2
      in \<lparr> m_start = start AND 0x3fffff,
           m_loop = push_bit 8 (rb 3) OR rb 4,
           m_end = 0xffff - (push_bit 8 (rb 5) OR rb 6),
           m_attack_reg = ucast (drop_bit 4 (rb 8) AND 0xf),
           m_decay1_reg = ucast (rb 8 AND 0xf),
           m_decay2_reg = ucast (rb 9 AND 0xf),
           m_decay_level = ucast (drop_bit 4 (rb 9) AND 0xf),
           m_release_reg = ucast (rb 10 AND 0xf),
           m_key_rate_scale = ucast (drop_bit 4 (rb 10) AND 0xf),
           m_lfo_vibrato_reg = ucast (rb 7),
           m_lfo_amplitude_reg = ucast (rb 11 AND 0xf),
           m_format = ucast (drop_bit 20 start AND 0xfe) \<rparr>)"

section \<open>Envelope generator\<close>

text \<open>
  \<^verbatim>\<open>get_rate\<close>. The sum \<^verbatim>\<open>4 * val + rate\<close> is computed on \<^verbatim>\<open>uint32_t\<close> and stored in
  the \<^verbatim>\<open>int32_t r\<close>; \<^verbatim>\<open>r > 0x3f\<close> compares signed. \<open>get_rate_index\<close> is the subscript
  of the last \<^verbatim>\<open>steps[r]\<close>.
\<close>

definition get_rate_index :: "u32 \<Rightarrow> u32 \<Rightarrow> int" where
  "get_rate_index rate val =
     (let r = 4 * val + rate in if 0x3f <s r then 0x3f else sint r)"

definition get_rate :: "u32 list \<Rightarrow> u32 \<Rightarrow> u32 \<Rightarrow> u32 option" where
  "get_rate steps rate val =
     (if val = 0 then Some (steps ! 0)
      else if val = 0xf then Some (steps ! 0x3f)
      else at_index steps (get_rate_index rate val))"

text \<open>
  \<^verbatim>\<open>envelope_generator_calc\<close>; \<open>calc_octave\<close> and \<open>calc_rate\<close> are its locals
  \<^verbatim>\<open>octave\<close> and \<^verbatim>\<open>rate\<close>, as functions of \<^verbatim>\<open>m_regs[3]\<close> and the key-rate-scale
  field of the sample.
\<close>

definition calc_octave :: "u8 \<Rightarrow> s32" where
  "calc_octave r3 =
     (let octave = (drop_bit 4 (ucast r3) - 1) AND 0xf
      in if octave AND 8 \<noteq> 0 then octave - 16 else octave)"

definition calc_rate :: "u8 \<Rightarrow> u8 \<Rightarrow> s32" where
  "calc_rate r3 krs =
     (if krs \<noteq> 0xf
      then (calc_octave r3 + ucast krs) * 2 + (drop_bit 3 (ucast r3) AND 1)
      else 0)"

definition envelope_generator_calc :: "chip \<Rightarrow> slot_t \<Rightarrow> slot_t option" where
  "envelope_generator_calc c slot = do {
     let smp = m_sample slot;
     let rate = calc_rate (m_regs slot ! 3) (m_key_rate_scale smp);
     ar \<leftarrow> get_rate (m_attack_step c) rate (ucast (m_attack_reg smp));
     d1 \<leftarrow> get_rate (m_decay_release_step c) rate (ucast (m_decay1_reg smp));
     d2 \<leftarrow> get_rate (m_decay_release_step c) rate (ucast (m_decay2_reg smp));
     rr \<leftarrow> get_rate (m_decay_release_step c) rate (ucast (m_release_reg smp));
     Some (slot\<lparr>m_envelope_gen := (m_envelope_gen slot)
       \<lparr>m_attack_rate := ar, m_decay1_rate := d1, m_decay2_rate := d2,
        m_release_rate := rr, m_decay_level_eg := 0xf - ucast (m_decay_level smp)\<rparr>\<rparr>)
   }"

definition retrigger_sample :: "chip \<Rightarrow> slot_t \<Rightarrow> slot_t option" where
  "retrigger_sample c slot = do {
     let slot1 = slot\<lparr>m_offset := 0, m_prev_sample := 0,
                      m_total_level := push_bit (TL_SHIFT c) (m_dest_total_level slot)\<rparr>;
     slot2 \<leftarrow> envelope_generator_calc c slot1;
     Some (slot2\<lparr>m_envelope_gen := (m_envelope_gen slot2)\<lparr>m_state := ATTACK, m_volume := 0\<rparr>\<rparr>)
   }"

text \<open>
  \<^verbatim>\<open>envelope_generator_update\<close>: the new voice and the gain returned. The four
  constructors of \<open>state_t\<close> are the four cases of the \<^verbatim>\<open>switch\<close>; its \<^verbatim>\<open>default\<close>
  branch has no state to stand for.
\<close>

definition envelope_generator_update :: "chip \<Rightarrow> slot_t \<Rightarrow> (slot_t \<times> s32) option" where
  "envelope_generator_update c slot =
     (let eg = m_envelope_gen slot; E = EG_SHIFT c;
          slot' =
            (case m_state eg of
               ATTACK \<Rightarrow>
                 (let v = m_volume eg + m_attack_rate eg in
                  if push_bit E 0x3ff \<le>s v
                  then slot\<lparr>m_envelope_gen := eg
                         \<lparr>m_state := (if push_bit E 0x400 \<le>s m_decay1_rate eg then DECAY2 else DECAY1),
                          m_volume := push_bit E 0x3ff\<rparr>\<rparr>
                  else slot\<lparr>m_envelope_gen := eg\<lparr>m_volume := v\<rparr>\<rparr>)
             | DECAY1 \<Rightarrow>
                 (let v = m_volume eg - m_decay1_rate eg;
                      v' = (if v \<le>s 0 then 0 else v)
                  in slot\<lparr>m_envelope_gen := eg
                       \<lparr>m_volume := v',
                        m_state := (if signed_drop_bit E v' \<le>s push_bit 6 (m_decay_level_eg eg)
                                    then DECAY2 else DECAY1)\<rparr>\<rparr>)
             | DECAY2 \<Rightarrow>
                 (let v = m_volume eg - m_decay2_rate eg
                  in slot\<lparr>m_envelope_gen := eg\<lparr>m_volume := (if v \<le>s 0 then 0 else v)\<rparr>\<rparr>)
             | RELEASE \<Rightarrow>
                 (let v = m_volume eg - m_release_rate eg
                  in if v \<le>s 0
                     then slot\<lparr>m_envelope_gen := eg\<lparr>m_volume := 0\<rparr>, m_playing := False\<rparr>
                     else slot\<lparr>m_envelope_gen := eg\<lparr>m_volume := v\<rparr>\<rparr>))
      in map_option (Pair slot')
           (at_index (m_linear_to_exp_volume c)
              (sint (signed_drop_bit E (m_volume (m_envelope_gen slot'))))))"

section \<open>Low-frequency oscillators\<close>

text \<open>The two waveform tables of \<^verbatim>\<open>lfo_init\<close>, which are computed on integers.\<close>

definition m_pitch_table :: "s32 list" where
  "m_pitch_table =
     map (\<lambda>i. if i < 64 then of_nat i * 2 + 128
              else if i < 128 then 383 - of_nat i * 2
              else if i < 192 then 384 - of_nat i * 2
              else of_nat i * 2 - 383) [0..<256]"

definition m_amplitude_table :: "s32 list" where
  "m_amplitude_table =
     map (\<lambda>i. if i < 128 then 255 - of_nat i * 2 else of_nat i * 2 - 256) [0..<256]"

text \<open>
  \<^verbatim>\<open>pitch_lfo_step\<close> and \<^verbatim>\<open>amplitude_lfo_step\<close> have the same body: the oscillator
  with its phase advanced, and the scaled value. Both subscripts go through pointers
  held by the voice, so both are checked. The shift count \<^verbatim>\<open>TL_SHIFT - LFO_SHIFT\<close> is
  a difference of unsigned constants; the subtraction on \<open>nat\<close> is that difference as
  long as \<^verbatim>\<open>TL_SHIFT\<close> is not the smaller one.
\<close>

definition pitch_lfo_step :: "chip \<Rightarrow> lfo_t \<Rightarrow> (lfo_t \<times> s32) option" where
  "pitch_lfo_step c lfo = do {
     let lfo' = lfo\<lparr>m_phase := m_phase lfo + ucast (m_phase_step lfo)\<rparr>;
     p \<leftarrow> at_index (m_table lfo') (uint (drop_bit (LFO_SHIFT c) (m_phase lfo') AND 0xff));
     p \<leftarrow> at_index (m_scale lfo') (sint p);
     Some (lfo', push_bit (TL_SHIFT c - LFO_SHIFT c) p)
   }"

definition amplitude_lfo_step :: "chip \<Rightarrow> lfo_t \<Rightarrow> (lfo_t \<times> s32) option" where
  "amplitude_lfo_step c lfo = do {
     let lfo' = lfo\<lparr>m_phase := m_phase lfo + ucast (m_phase_step lfo)\<rparr>;
     p \<leftarrow> at_index (m_table lfo') (uint (drop_bit (LFO_SHIFT c) (m_phase lfo') AND 0xff));
     p \<leftarrow> at_index (m_scale lfo') (sint p);
     Some (lfo', push_bit (TL_SHIFT c - LFO_SHIFT c) p)
   }"

definition lfo_compute_step :: "chip \<Rightarrow> lfo_t \<Rightarrow> nat \<Rightarrow> nat \<Rightarrow> bool \<Rightarrow> lfo_t" where
  "lfo_compute_step c lfo lfo_frequency lfo_scale amplitude_lfo =
     (if amplitude_lfo
      then lfo\<lparr>m_phase_step := lfo_phase_step c lfo_frequency,
               m_table := m_amplitude_table,
               m_scale := m_amplitude_scale_tables c ! lfo_scale\<rparr>
      else lfo\<lparr>m_phase_step := lfo_phase_step c lfo_frequency,
               m_table := m_pitch_table,
               m_scale := m_pitch_scale_tables c ! lfo_scale\<rparr>)"

section \<open>Register interface\<close>

text \<open>
  \<^verbatim>\<open>write_slot\<close> for the registers 6 and 7, whose cases have the same body.
  \<^verbatim>\<open>write_slot\<close> calls itself with these two registers when a sample is selected;
  \<open>write_slot_67\<close> is that inner call, and the case the outer function takes for
  \<open>reg = 6\<close> and \<open>reg = 7\<close>.
\<close>

definition write_slot_67 :: "chip \<Rightarrow> slot_t \<Rightarrow> nat \<Rightarrow> u8 \<Rightarrow> slot_t" where
  "write_slot_67 c slot0 reg data =
     (let slot = slot0\<lparr>m_regs := (m_regs slot0)[reg := data]\<rparr>;
          regs = m_regs slot
      in if data \<noteq> 0
         then slot\<lparr>m_pitch_lfo :=
                     lfo_compute_step c (m_pitch_lfo slot)
                       (unat (drop_bit 3 (regs ! 6) AND 7)) (unat (regs ! 6 AND 7)) False,
                   m_amplitude_lfo :=
                     lfo_compute_step c (m_amplitude_lfo slot)
                       (unat (drop_bit 3 (regs ! 6) AND 7)) (unat (regs ! 7 AND 7)) True\<rparr>
         else slot)"

text \<open>
  \<^verbatim>\<open>write_slot\<close>. The register number comes from \<open>m_address\<close>, which the bus write
  clamps to 7; a store beyond the eight registers of the voice is outside the array.
\<close>

definition write_slot :: "chip \<Rightarrow> slot_t \<Rightarrow> nat \<Rightarrow> u8 \<Rightarrow> slot_t option" where
  "write_slot c slot0 reg data =
     (if 8 \<le> reg then None
      else
        let slot = slot0\<lparr>m_regs := (m_regs slot0)[reg := data]\<rparr>;
            regs = m_regs slot;
            T = TL_SHIFT c
        in
        if reg = 0 then Some (slot\<lparr>m_pan := drop_bit 4 (ucast data) AND 0xf\<rparr>)
        else if reg = 1 then
          (let smp = init_sample c (ucast (regs ! 1) OR push_bit 8 (ucast (regs ! 2) AND 1));
               slot1 = write_slot_67 c (slot\<lparr>m_sample := smp\<rparr>) 6 (m_lfo_vibrato_reg smp);
               slot2 = write_slot_67 c slot1 7 (m_lfo_amplitude_reg smp);
               slot3 = slot2\<lparr>m_base := m_start smp, m_format_slot := m_format smp\<rparr>
           in if m_playing slot3 then retrigger_sample c slot3 else Some slot3)
        else if reg = 2 \<or> reg = 3 then
          (let oct = (drop_bit 4 (ucast (regs ! 3)) - 1) AND (0xf :: u32);
               pitch = push_bit 6 (ucast (regs ! 3) AND 0xf) OR drop_bit 2 (ucast (regs ! 2));
               pitch1 = m_freq_step_table c ! unat (pitch :: u32);
               pitch2 = (if oct AND 8 \<noteq> 0 then drop_bit (unat (16 - oct)) pitch1
                         else push_bit (unat oct) pitch1)
           in Some (slot\<lparr>m_step := div_rate c pitch2\<rparr>))
        else if reg = 4 then
          (if data AND 0x80 \<noteq> 0 then retrigger_sample c (slot\<lparr>m_playing := True\<rparr>)
           else if m_playing slot then
             (if m_release_reg (m_sample slot) \<noteq> 0xf
              then Some (slot\<lparr>m_envelope_gen := (m_envelope_gen slot)\<lparr>m_state := RELEASE\<rparr>\<rparr>)
              else Some (slot\<lparr>m_playing := False\<rparr>))
           else Some slot)
        else if reg = 5 then
          (let slot1 = slot\<lparr>m_dest_total_level := drop_bit 1 (ucast data) AND 0x7f\<rparr>
           in if data AND 1 = 0 then
                (if m_dest_total_level slot1 < drop_bit T (m_total_level slot1)
                 then Some (slot1\<lparr>m_total_level_step := m_total_level_steps c ! 0\<rparr>)
                 else Some (slot1\<lparr>m_total_level_step := m_total_level_steps c ! 1\<rparr>))
              else Some (slot1\<lparr>m_total_level := push_bit T (m_dest_total_level slot1)\<rparr>))
        else Some (write_slot_67 c slot0 reg data))"

text \<open>
  The bus interface, \<^verbatim>\<open>multipcm_device::read\<close> and \<^verbatim>\<open>multipcm_device::write\<close>.
  \<open>m_slots[m_cur_slot]\<close> is a checked subscript: \<open>VALUE_TO_CHANNEL\<close> holds \<open>-1\<close> for the
  codes that select no voice, and nothing tests for it before the array is indexed.
  Read as a signed or as an unsigned 32-bit value, \<open>-1\<close> is no subscript of the 28
  voices; the valid subscripts 0 to 27 read the same either way.
\<close>

definition device_read :: "device \<Rightarrow> u8 \<times> device" where
  "device_read d = (0, d)"

definition device_write :: "chip \<Rightarrow> device \<Rightarrow> u32 \<Rightarrow> u8 \<Rightarrow> device option" where
  "device_write c d offset data =
     (if offset = 0 then do {
        slot \<leftarrow> at_index (m_slots d) (sint (m_cur_slot d));
        slot' \<leftarrow> write_slot c slot (unat (m_address d)) data;
        Some (d\<lparr>m_slots := (m_slots d)[nat (sint (m_cur_slot d)) := slot']\<rparr>)
      }
      else if offset = 1 then
        Some (d\<lparr>m_cur_slot := VALUE_TO_CHANNEL ! unat (data AND 0x1f)\<rparr>)
      else if offset = 2 then
        Some (d\<lparr>m_address := (if 7 < data then 7 else ucast data)\<rparr>)
      else Some d)"

section \<open>Stream renderer\<close>

text \<open>
  The body of \<^verbatim>\<open>sound_stream_update\<close> for one playing voice and one output sample,
  in the order of the source. \<open>fetch_sample\<close> is the decoded \<^verbatim>\<open>csample\<close>.
\<close>

definition fetch_sample :: "chip \<Rightarrow> slot_t \<Rightarrow> u32 \<Rightarrow> s32" where
  "fetch_sample c slot spos =
     (let rb = (\<lambda>a. (ucast (read_byte c a) :: u16)) in
      if m_format_slot slot AND 8 \<noteq> 0 then
        (let adr = m_base slot + drop_bit 2 spos * 6;
             k = spos AND 3
         in if k = 0 then scast (push_bit 8 (rb adr) OR push_bit 4 (rb (adr + 1) AND 0xf))
            else if k = 1 then scast (push_bit 8 (rb (adr + 2)) OR (rb (adr + 1) AND 0xf0))
            else if k = 2 then scast (push_bit 8 (rb (adr + 3)) OR push_bit 4 (rb (adr + 4) AND 0xf))
            else scast (push_bit 8 (rb (adr + 5)) OR (rb (adr + 4) AND 0xf0)))
      else scast (push_bit 8 (rb (m_base slot + spos))))"

text \<open>The step of this sample: \<^verbatim>\<open>slot.m_step\<close>, scaled by the pitch LFO when vibrato is on.\<close>

definition modulated_step :: "chip \<Rightarrow> slot_t \<Rightarrow> (slot_t \<times> u32) option" where
  "modulated_step c slot =
     (if m_regs slot ! 6 AND 7 \<noteq> 0 then do {
        (lfo, p) \<leftarrow> pitch_lfo_step c (m_pitch_lfo slot);
        Some (slot\<lparr>m_pitch_lfo := lfo\<rparr>, drop_bit (TL_SHIFT c) (m_step slot * p))
      }
      else Some (slot, m_step slot))"

text \<open>\<^verbatim>\<open>slot.m_offset += step\<close> and the wrap to the loop point.\<close>

definition advance_offset :: "chip \<Rightarrow> slot_t \<Rightarrow> u32 \<Rightarrow> slot_t" where
  "advance_offset c slot step =
     (let offset = m_offset slot + step
      in if push_bit (TL_SHIFT c) (m_end (m_sample slot)) \<le> offset
         then slot\<lparr>m_offset := push_bit (TL_SHIFT c) (m_loop (m_sample slot))\<rparr>
         else slot\<lparr>m_offset := offset\<rparr>)"

text \<open>The ramp of the total level towards its destination.\<close>

definition ramp_total_level :: "chip \<Rightarrow> slot_t \<Rightarrow> slot_t" where
  "ramp_total_level c slot =
     (if drop_bit (TL_SHIFT c) (m_total_level slot) \<noteq> m_dest_total_level slot
      then slot\<lparr>m_total_level := m_total_level slot + m_total_level_step slot\<rparr>
      else slot)"

definition tremolo :: "chip \<Rightarrow> slot_t \<Rightarrow> s32 \<Rightarrow> (slot_t \<times> s32) option" where
  "tremolo c slot sample =
     (if m_regs slot ! 7 AND 7 \<noteq> 0 then do {
        (lfo, a) \<leftarrow> amplitude_lfo_step c (m_amplitude_lfo slot);
        Some (slot\<lparr>m_amplitude_lfo := lfo\<rparr>, signed_drop_bit (TL_SHIFT c) (sample * a))
      }
      else Some (slot, sample))"

definition slot_update :: "chip \<Rightarrow> slot_t \<Rightarrow> (slot_t \<times> s32 \<times> s32) option" where
  "slot_update c slot0 = do {
     let T = TL_SHIFT c;
     let vol = drop_bit T (m_total_level slot0) OR push_bit 7 (m_pan slot0);
     let spos = drop_bit T (m_offset slot0);
     let fpart = m_offset slot0 AND (push_bit T 1 - 1);
     let csample = fetch_sample c slot0 spos;
     let sample = signed_drop_bit T
                    (csample * fpart + m_prev_sample slot0 * (push_bit T 1 - fpart));
     (slot1, step) \<leftarrow> modulated_step c slot0;
     let slot2 = advance_offset c slot1 step;
     let slot3 = (if spos XOR drop_bit T (m_offset slot2) \<noteq> 0
                  then slot2\<lparr>m_prev_sample := csample\<rparr> else slot2);
     let slot4 = ramp_total_level c slot3;
     (slot5, sample1) \<leftarrow> tremolo c slot4 sample;
     (slot6, gain) \<leftarrow> envelope_generator_update c slot5;
     let sample2 = signed_drop_bit 10 (sample1 * gain);
     l \<leftarrow> at_index (m_left_pan_table c) (uint vol);
     r \<leftarrow> at_index (m_right_pan_table c) (uint vol);
     Some (slot6, signed_drop_bit T (l * sample2), signed_drop_bit T (r * sample2))
   }"

text \<open>One output sample for one voice: a voice that is not playing is skipped.\<close>

definition slot_tick :: "chip \<Rightarrow> slot_t \<Rightarrow> (slot_t \<times> s32 \<times> s32) option" where
  "slot_tick c slot = (if m_playing slot then slot_update c slot else Some (slot, 0, 0))"

text \<open>The loop over the voices (sums \<^verbatim>\<open>smpl\<close>, \<^verbatim>\<open>smpr\<close>), and the loop over the samples.
  The pairs returned are the sums handed to \<^verbatim>\<open>put_int_clamp\<close>.\<close>

fun render_slots :: "chip \<Rightarrow> slot_t list \<Rightarrow> (slot_t list \<times> s32 \<times> s32) option" where
  "render_slots c [] = Some ([], 0, 0)"
| "render_slots c (slot # rest) = do {
     (slot', l, r) \<leftarrow> slot_tick c slot;
     (rest', smpl, smpr) \<leftarrow> render_slots c rest;
     Some (slot' # rest', l + smpl, r + smpr)
   }"

fun sound_stream_update :: "chip \<Rightarrow> device \<Rightarrow> nat \<Rightarrow> (device \<times> (s32 \<times> s32) list) option" where
  "sound_stream_update c d 0 = Some (d, [])"
| "sound_stream_update c d (Suc n) = do {
     (slots, smpl, smpr) \<leftarrow> render_slots c (m_slots d);
     (d', out) \<leftarrow> sound_stream_update c (d\<lparr>m_slots := slots\<rparr>) n;
     Some (d', (smpl, smpr) # out)
   }"

text \<open>\<open>n\<close> output samples as seen by one voice.\<close>

fun slot_ticks :: "chip \<Rightarrow> nat \<Rightarrow> slot_t \<Rightarrow> slot_t option" where
  "slot_ticks c 0 slot = Some slot"
| "slot_ticks c (Suc n) slot = do {
     (slot', l, r) \<leftarrow> slot_tick c slot;
     slot_ticks c n slot'
   }"

section \<open>A device to evaluate on\<close>

text \<open>
  \<open>ref_chip\<close> is a device clocked at 224 Hz, so that \<^verbatim>\<open>m_rate\<close> is 1.0, the division by
  it changes nothing and entry \<open>i\<close> of the frequency table is \<open>4096 + 4 i\<close>. The shift
  constants are 12, 16 and 8. The envelope step tables and the two total-level steps
  are the values \<^verbatim>\<open>device_start\<close> computes for these constants. The tables it fills
  through \<^verbatim>\<open>powf\<close> are stood in for by tables of the right size: a linear ramp for
  the volume curve, a quarter gain for the pan tables, unity for the LFO scales. The
  LFO phase step is a stand-in as well (\<open>0x100\<close> for every frequency).
\<close>

definition ref_chip :: chip where
  "ref_chip =
     \<lparr> TL_SHIFT = 12, EG_SHIFT = 16, LFO_SHIFT = 8,
       read_byte = (\<lambda>a. 0),
       div_rate = (\<lambda>p. p),
       lfo_phase_step = (\<lambda>f. 0x100),
       m_attack_step =
         [0, 0, 0, 0, 244, 305, 366, 427, 489, 611, 733, 855, 978, 1222, 1467, 1711,
          1956, 2445, 2934, 3423, 3912, 4890, 5868, 6846, 7825, 9779, 11736, 13689,
          15650, 19554, 23465, 27369, 31298, 39109, 46923, 54738, 62597, 78198, 93703,
          109320, 125246, 156076, 187406, 218014, 250286, 310559, 372976, 436029,
          500573, 611141, 714433, 800917, 884734, 1079250, 1289612, 1463214, 1672245,
          2084579, 2579225, 3043486, 3381651, 3381651, 3381651, 67108864],
       m_decay_release_step =
         [0, 0, 0, 0, 17, 21, 25, 29, 34, 42, 51, 59, 68, 85, 102, 119, 136, 170, 204,
          238, 273, 341, 409, 477, 546, 682, 819, 955, 1092, 1364, 1637, 1910, 2184,
          2729, 3274, 3820, 4368, 5457, 6539, 7629, 8741, 10892, 13079, 15215, 17467,
          21674, 26030, 30431, 34935, 42652, 49861, 55897, 61747, 75322, 90004, 102120,
          116709, 145486, 180008, 212410, 236011, 236011, 236011, 236011],
       m_freq_step_table = map (\<lambda>i. 4096 + 4 * of_nat i) [0..<0x400],
       m_left_pan_table = replicate 0x800 0x400,
       m_right_pan_table = replicate 0x800 0x400,
       m_linear_to_exp_volume = map (\<lambda>i. 4 * of_nat i) [0..<0x400],
       m_total_level_steps = [- 152, 76],
       m_pitch_scale_tables = replicate 8 (replicate 256 0x100),
       m_amplitude_scale_tables = replicate 8 (replicate 256 0x100) \<rparr>"

text \<open>A silent voice with all registers zero, and a sample descriptor of 100 samples.\<close>

definition ref_sample :: sample_t where
  "ref_sample =
     \<lparr> m_start = 0, m_loop = 0, m_end = 100,
       m_attack_reg = 1, m_decay1_reg = 5, m_decay2_reg = 3, m_decay_level = 7,
       m_release_reg = 9, m_key_rate_scale = 0,
       m_lfo_vibrato_reg = 0, m_lfo_amplitude_reg = 0, m_format = 0 \<rparr>"

definition ref_slot :: slot_t where
  "ref_slot =
     \<lparr> m_regs = [0, 0, 0, 0, 0, 0, 0, 0], m_playing = False, m_base = 0, m_offset = 0,
       m_step = 0, m_pan = 0, m_total_level = 0, m_dest_total_level = 0,
       m_total_level_step = 0, m_prev_sample = 0, m_format_slot = 0,
       m_sample = ref_sample,
       m_envelope_gen =
         \<lparr> m_volume = 0, m_state = ATTACK, step_eg = 0, m_attack_rate = 0,
           m_decay1_rate = 0, m_decay2_rate = 0, m_release_rate = 0,
           m_decay_level_eg = 0 \<rparr>,
       m_pitch_lfo = \<lparr> m_phase = 0, m_phase_step = 0, m_table = [], m_scale = [] \<rparr>,
       m_amplitude_lfo = \<lparr> m_phase = 0, m_phase_step = 0, m_table = [], m_scale = [] \<rparr> \<rparr>"

definition ref_device :: device where
  "ref_device = \<lparr> m_slots = replicate 28 ref_slot, m_cur_slot = 0, m_address = 0 \<rparr>"

section \<open>The pitch step in the words of the specification\<close>

text \<open>
  \<open>pitch_code\<close> is the local \<^verbatim>\<open>pitch\<close> of \<^verbatim>\<open>write_slot\<close> before the table is read: the
  ten bits of the pitch registers that select the entry of the frequency table.
\<close>

definition pitch_code :: "u8 list \<Rightarrow> u32" where
  "pitch_code regs = push_bit 6 (ucast (regs ! 3) AND 0xf) OR drop_bit 2 (ucast (regs ! 2))"

text \<open>
  The specification scales the table entry to the left when the octave field is 8 or
  more and to the right when it is below 8, and names no shift count.
  \<open>spec_scaled_steps\<close> lists the steps this rule allows, one for each count below 32.
\<close>

definition spec_scaled_steps :: "chip \<Rightarrow> u8 list \<Rightarrow> u32 list" where
  "spec_scaled_steps c regs =
     (let field = drop_bit 4 (regs ! 3);
          p = m_freq_step_table c ! unat (pitch_code regs)
      in map (\<lambda>k. div_rate c (if 8 \<le> field then push_bit k p else drop_bit k p)) [0..<32])"


section \<open>The invariant of the total-level ramp\<close>

text \<open>
  What the proofs about the ramp carry from one output sample to the next: the current
  level and the destination are at most \<open>0x7f\<close>, and whenever they differ the step of
  the voice is the one of the two \<open>m_total_level_steps\<close> that points towards the
  destination.
\<close>

definition level_inv :: "chip \<Rightarrow> slot_t \<Rightarrow> bool" where
  "level_inv c s \<longleftrightarrow>
     drop_bit (TL_SHIFT c) (m_total_level s) \<le> 0x7f
     \<and> m_dest_total_level s \<le> 0x7f
     \<and> (drop_bit (TL_SHIFT c) (m_total_level s) < m_dest_total_level s
          \<longrightarrow> m_total_level_step s = m_total_level_steps c ! 1)
     \<and> (m_dest_total_level s < drop_bit (TL_SHIFT c) (m_total_level s)
          \<longrightarrow> m_total_level_step s = m_total_level_steps c ! 0)"

text \<open>A playing voice after the write of \<open>6\<close> to register 5: destination 3, ramped.\<close>

definition ramp_slot :: slot_t where
  "ramp_slot = ref_slot\<lparr>m_regs := [0, 0, 0, 0, 0, 6, 0, 0], m_playing := True,
      m_dest_total_level := 3, m_total_level_step := 76\<rparr>"

section \<open>Arithmetic on the register fields\<close>

lemma high_nibble_less: "unat (drop_bit 4 (r :: u8)) < 16"
proof -
  have "unat r < 2 ^ 8" using unsigned_less[of r] by simp
  moreover have "unat (drop_bit 4 r) = unat r div 16"
    by (simp add: drop_bit_eq_div unat_div)
  ultimately show ?thesis by simp
qed

lemma nat_less_16_cases:
  "(n::nat) < 16 \<Longrightarrow> n \<in> {0, 1, 2, 3, 4, 5, 6, 7, 8, 9, 10, 11, 12, 13, 14, 15}"
  by (simp only: insert_iff empty_iff) presburger

lemma high_nibble_ucast:
  "drop_bit 4 (ucast (r :: u8) :: u32) = of_nat (unat (drop_bit 4 r))"
  by (simp add: ucast_drop_bit_eq[symmetric])

lemma bit3_ucast:
  "drop_bit 3 (ucast (r :: u8) :: u32) AND 1 = (if bit r 3 then 1 else 0)"
  by (simp add: and_one_eq bit_iff_odd_drop_bit[symmetric] bit_ucast_iff mod_2_eq_odd)

lemma sint_word_of_int_32:
  "- (2 ^ 31) \<le> x \<Longrightarrow> x < 2 ^ 31 \<Longrightarrow> sint (word_of_int x :: s32) = x"
  by (simp add: sint_sbintrunc' signed_take_bit_int_eq_self)

section \<open>Envelope rates\<close>

lemma sint_calc_octave:
  "sint (calc_octave r3) =
     (let n = int (unat (drop_bit 4 r3))
      in if n = 0 then - 1 else if n \<le> 8 then n - 1 else n - 17)"
proof -
  define n where "n = unat (drop_bit 4 r3)"
  have n: "n \<in> {0, 1, 2, 3, 4, 5, 6, 7, 8, 9, 10, 11, 12, 13, 14, 15}"
    using high_nibble_less[of r3] nat_less_16_cases unfolding n_def by blast
  have e: "drop_bit 4 (ucast r3 :: u32) = of_nat n"
    unfolding n_def by (rule high_nibble_ucast)
  show ?thesis
    unfolding calc_octave_def e n_def[symmetric] Let_def using n
    by (elim insertE emptyE) simp_all
qed

lemma calc_octave_bounds: "- 8 \<le> sint (calc_octave r3) \<and> sint (calc_octave r3) \<le> 7"
proof -
  define n where "n = unat (drop_bit 4 r3)"
  have n: "n < 16" unfolding n_def by (rule high_nibble_less)
  have e: "sint (calc_octave r3) =
      (if int n = 0 then - 1 else if int n \<le> 8 then int n - 1 else int n - 17)"
    unfolding n_def sint_calc_octave Let_def ..
  show ?thesis unfolding e using n by auto
qed

lemma sint_calc_rate:
  assumes "krs \<noteq> 0xf"
  shows "sint (calc_rate r3 krs) =
           (sint (calc_octave r3) + int (unat krs)) * 2 + (if bit r3 3 then 1 else 0)"
proof -
  define k where "k = unat krs"
  define x where "x = (sint (calc_octave r3) + int k) * 2 + (if bit r3 3 then 1 else (0::int))"
  have k: "k < 2 ^ 8" unfolding k_def using unsigned_less[of krs] by simp
  have bnd: "- (2 ^ 31) \<le> x" "x < 2 ^ 31"
    using calc_octave_bounds[of r3] k unfolding x_def by auto
  have "calc_rate r3 krs = word_of_int x"
    using assms unfolding x_def k_def calc_rate_def bit3_ucast by simp
  then show ?thesis using sint_word_of_int_32[OF bnd] unfolding x_def k_def by simp
qed

lemma envelope_generator_calc_rates:
  assumes "envelope_generator_calc c slot = Some s'"
  defines "rate \<equiv> calc_rate (m_regs slot ! 3) (m_key_rate_scale (m_sample slot))"
  shows "get_rate (m_attack_step c) rate (ucast (m_attack_reg (m_sample slot)))
           = Some (m_attack_rate (m_envelope_gen s'))"
    and "get_rate (m_decay_release_step c) rate (ucast (m_decay1_reg (m_sample slot)))
           = Some (m_decay1_rate (m_envelope_gen s'))"
    and "get_rate (m_decay_release_step c) rate (ucast (m_decay2_reg (m_sample slot)))
           = Some (m_decay2_rate (m_envelope_gen s'))"
    and "get_rate (m_decay_release_step c) rate (ucast (m_release_reg (m_sample slot)))
           = Some (m_release_rate (m_envelope_gen s'))"
  using assms(1) unfolding rate_def envelope_generator_calc_def Let_def
  by (auto split: Option.bind_splits)

text \<open>
  C4, as amended. The octave of \<^verbatim>\<open>envelope_generator_calc\<close> is the high nibble of the
  pitch register minus one, read as a signed 4-bit value: nibble 1 gives octave 0,
  nibble 8 gives 7, nibble 9 gives -8 and nibble 0 gives -1. The rate offset is 0 when
  the key-rate-scale field is 0xF and \<open>(octave + key_rate_scale) * 2\<close> plus bit 3 of the
  pitch register otherwise; the four rates stored are \<^verbatim>\<open>get_rate\<close> of that offset.
\<close>

theorem envelope_generator_calc_offset:
  fixes c :: chip and slot :: slot_t
  assumes "envelope_generator_calc c slot = Some s'"
  shows "sint (calc_octave (m_regs slot ! 3)) =
           (let n = int (unat (drop_bit 4 (m_regs slot ! 3)))
            in if n = 0 then - 1 else if n \<le> 8 then n - 1 else n - 17)
       \<and> sint (calc_rate (m_regs slot ! 3) (m_key_rate_scale (m_sample slot))) =
           (if m_key_rate_scale (m_sample slot) = 0xf then 0
            else (sint (calc_octave (m_regs slot ! 3))
                    + int (unat (m_key_rate_scale (m_sample slot)))) * 2
                 + (if bit (m_regs slot ! 3) 3 then 1 else 0))
       \<and> get_rate (m_attack_step c)
              (calc_rate (m_regs slot ! 3) (m_key_rate_scale (m_sample slot)))
              (ucast (m_attack_reg (m_sample slot)))
           = Some (m_attack_rate (m_envelope_gen s'))
       \<and> get_rate (m_decay_release_step c)
              (calc_rate (m_regs slot ! 3) (m_key_rate_scale (m_sample slot)))
              (ucast (m_decay1_reg (m_sample slot)))
           = Some (m_decay1_rate (m_envelope_gen s'))
       \<and> get_rate (m_decay_release_step c)
              (calc_rate (m_regs slot ! 3) (m_key_rate_scale (m_sample slot)))
              (ucast (m_decay2_reg (m_sample slot)))
           = Some (m_decay2_rate (m_envelope_gen s'))
       \<and> get_rate (m_decay_release_step c)
              (calc_rate (m_regs slot ! 3) (m_key_rate_scale (m_sample slot)))
              (ucast (m_release_reg (m_sample slot)))
           = Some (m_release_rate (m_envelope_gen s'))"
proof -
  have "sint (calc_rate (m_regs slot ! 3) (m_key_rate_scale (m_sample slot))) =
           (if m_key_rate_scale (m_sample slot) = 0xf then 0
            else (sint (calc_octave (m_regs slot ! 3))
                    + int (unat (m_key_rate_scale (m_sample slot)))) * 2
                 + (if bit (m_regs slot ! 3) 3 then 1 else 0))"
  proof (cases "m_key_rate_scale (m_sample slot) = 0xf")
    case True
    then show ?thesis by (simp add: calc_rate_def)
  next
    case False
    then show ?thesis using sint_calc_rate[OF False] by simp
  qed
  then show ?thesis
    using sint_calc_octave envelope_generator_calc_rates[OF assms] by blast
qed

lemmas rate_eval =
  envelope_generator_calc_def get_rate_def get_rate_index_def calc_rate_def calc_octave_def
  at_index_def word_sless_alt word_sle_eq

lemmas ref_eval = ref_chip_def ref_slot_def ref_sample_def ref_device_def

theorem envelope_generator_calc_offset_witness:
  "envelope_generator_calc ref_chip (ref_slot\<lparr>m_regs := [0, 0, 0, 0x08, 0, 0, 0, 0]\<rparr>) \<noteq> None
   \<and> sint (calc_octave 0x08) = - 1
   \<and> sint (calc_rate 0x08 0) = - 1
   \<and> get_rate (m_attack_step ref_chip) (calc_rate 0x08 0) 1 = Some 0
   \<and> get_rate (m_decay_release_step ref_chip) (calc_rate 0x08 0) 5 = Some 238"
proof -
  obtain s' where s:
    "envelope_generator_calc ref_chip (ref_slot\<lparr>m_regs := [0, 0, 0, 0x08, 0, 0, 0, 0]\<rparr>) = Some s'"
    by (simp add: rate_eval ref_eval)
  from envelope_generator_calc_offset[OF s] s show ?thesis
    by (simp add: rate_eval ref_eval)
qed

text \<open>
  C4 as stated has the nibble 8 give octave 0. With \<^verbatim>\<open>m_regs[3] = 0x80\<close> the code
  computes the octave 7.
\<close>

theorem calc_octave_nibble_8: "sint (calc_octave 0x80) = 7 \<and> calc_octave 0x80 \<noteq> 0"
  by (simp add: calc_octave_def)

section \<open>The subscript of the rate tables\<close>

lemma get_rate_first_last:
  "get_rate steps rate 0 = Some (steps ! 0) \<and> get_rate steps rate 0xf = Some (steps ! 0x3f)"
  by (simp add: get_rate_def)

lemma get_rate_index_le: "get_rate_index rate val \<le> 0x3f"
  by (simp add: get_rate_index_def Let_def word_sless_alt)

text \<open>
  C3, at an input the code can receive. With the pitch register \<^verbatim>\<open>m_regs[3] = 0x90\<close>
  (octave -8) and a key-rate-scale field of 0, \<^verbatim>\<open>envelope_generator_calc\<close> passes the
  rate offset -16; for the attack register 1 the subscript \<^verbatim>\<open>4 * val + rate\<close> is -12.
  \<^verbatim>\<open>get_rate\<close> clamps the subscript at \<open>0x3f\<close> only, so the read is below the table.
\<close>

theorem get_rate_below_table:
  "calc_rate 0x90 0 = - 16
   \<and> get_rate_index (calc_rate 0x90 0) 1 = - 12
   \<and> get_rate (m_attack_step ref_chip) (calc_rate 0x90 0) 1 = None
   \<and> envelope_generator_calc ref_chip (ref_slot\<lparr>m_regs := [0, 0, 0, 0x90, 0, 0, 0, 0]\<rparr>) = None"
  by (simp add: rate_eval ref_eval)

section \<open>Pitch registers\<close>

lemma pitch_code_less: "unat (pitch_code regs) < 0x400"
proof -
  define a :: u32 where "a = push_bit 6 (ucast (regs ! 3) AND 0xf)"
  define b :: u32 where "b = drop_bit 2 (ucast (regs ! 2))"
  have "ucast (regs ! 3) AND (0xf :: u32) \<le> 0xf" by (rule word_and_le1)
  then have y: "unat (ucast (regs ! 3) AND (0xf :: u32)) \<le> 15"
    by (simp add: word_le_nat_alt)
  have "unat a \<le> push_bit 6 (unat (ucast (regs ! 3) AND (0xf :: u32)))"
    unfolding a_def unsigned_push_bit_eq by (rule take_bit_nat_less_eq_self)
  also have "\<dots> < 2 ^ 10" using y by (simp add: push_bit_eq_mult)
  finally have a: "a < 2 ^ 10" by (simp add: word_less_nat_alt)
  have "b = of_nat (unat (drop_bit 2 (regs ! 2)))"
    unfolding b_def by (simp add: ucast_drop_bit_eq[symmetric])
  then have "unat b \<le> unat (drop_bit 2 (regs ! 2))"
    by (simp add: unsigned_of_nat take_bit_nat_less_eq_self del: of_nat_unat)
  also have "\<dots> < 2 ^ 10"
  proof -
    have "unat (regs ! 2) < 2 ^ 8" using unsigned_less[of "regs ! 2"] by simp
    then show ?thesis by (simp add: drop_bit_eq_div unat_div)
  qed
  finally have b: "b < 2 ^ 10" by (simp add: word_less_nat_alt)
  have "uint (a OR b) < 2 ^ 10"
    unfolding uint_or using a b by (intro OR_upper) (simp_all add: word_less_def)
  then have "a OR b < 2 ^ 10" by (simp add: word_less_def)
  then show ?thesis by (simp add: pitch_code_def a_def b_def word_less_nat_alt)
qed

lemma shift_by_field:
  fixes p :: u32
  shows "(let oct = (drop_bit 4 (ucast (r3 :: u8)) - 1) AND (0xf :: u32)
          in if oct AND 8 \<noteq> 0 then drop_bit (unat (16 - oct)) p else push_bit (unat oct) p) =
         (let f = unat (drop_bit 4 r3)
          in if f = 0 then drop_bit 1 p else if f \<le> 8 then push_bit (f - 1) p
             else drop_bit (17 - f) p)"
proof -
  define n where "n = unat (drop_bit 4 r3)"
  have n: "n \<in> {0, 1, 2, 3, 4, 5, 6, 7, 8, 9, 10, 11, 12, 13, 14, 15}"
    using high_nibble_less[of r3] nat_less_16_cases unfolding n_def by blast
  have e: "drop_bit 4 (ucast r3 :: u32) = of_nat n"
    unfolding n_def by (rule high_nibble_ucast)
  show ?thesis
    unfolding e n_def[symmetric] Let_def using n
    by (elim insertE emptyE) simp_all
qed

lemma write_slot_2_3:
  assumes "reg = 2 \<or> reg = 3"
  shows "write_slot c slot reg data =
     Some (slot\<lparr>m_regs := (m_regs slot)[reg := data],
       m_step := div_rate c
          (let regs = (m_regs slot)[reg := data];
               oct = (drop_bit 4 (ucast (regs ! 3)) - 1) AND (0xf :: u32);
               p = m_freq_step_table c ! unat (pitch_code regs)
           in if oct AND 8 \<noteq> 0 then drop_bit (unat (16 - oct)) p else push_bit (unat oct) p)\<rparr>)"
  using assms unfolding write_slot_def pitch_code_def Let_def
  by (elim disjE) simp_all

lemma upt_32: "[0..<32] = [0, 1, 2, 3, 4, 5, 6, 7, 8, 9, 10, 11, 12, 13, 14, 15, 16, 17, 18, 19,
  20, 21, 22, 23, 24, 25, 26, 27, 28, 29, 30, 31]"
  by code_simp

text \<open>
  C1, as amended. A write to the pitch registers 2 or 3 reads the frequency table at the
  10-bit pitch code and scales the entry by the octave field \<open>f\<close> (the high nibble of
  register 3): to the right by one bit for \<open>f = 0\<close>, to the left by \<open>f - 1\<close> bits for
  \<open>f\<close> from 1 to 8, to the right by \<open>17 - f\<close> bits for \<open>f\<close> from 9 to 15. The step is
  that value divided by the sample rate.
\<close>

theorem write_slot_pitch_step:
  assumes "reg = 2 \<or> reg = 3"
  shows "\<exists>s'. write_slot c slot reg data = Some s'
     \<and> m_regs s' = (m_regs slot)[reg := data]
     \<and> unat (pitch_code (m_regs s')) < 0x400
     \<and> m_step s' = div_rate c
          (let f = unat (drop_bit 4 (m_regs s' ! 3));
               p = m_freq_step_table c ! unat (pitch_code (m_regs s'))
           in if f = 0 then drop_bit 1 p
              else if f \<le> 8 then push_bit (f - 1) p
              else drop_bit (17 - f) p)"
proof -
  let ?regs = "(m_regs slot)[reg := data]"
  let ?p = "m_freq_step_table c ! unat (pitch_code ?regs)"
  have "m_step (the (write_slot c slot reg data)) = div_rate c
     (let oct = (drop_bit 4 (ucast (?regs ! 3)) - 1) AND (0xf :: u32)
      in if oct AND 8 \<noteq> 0 then drop_bit (unat (16 - oct)) ?p else push_bit (unat oct) ?p)"
    unfolding write_slot_2_3[OF assms] by (simp add: Let_def)
  then have "m_step (the (write_slot c slot reg data)) = div_rate c
     (let f = unat (drop_bit 4 (?regs ! 3))
      in if f = 0 then drop_bit 1 ?p else if f \<le> 8 then push_bit (f - 1) ?p
         else drop_bit (17 - f) ?p)"
    unfolding shift_by_field .
  then show ?thesis
    unfolding write_slot_2_3[OF assms] using pitch_code_less[of ?regs]
    by (simp add: Let_def)
qed

theorem write_slot_pitch_step_witness:
  "((3::nat) = 2 \<or> (3::nat) = 3)
   \<and> write_slot ref_chip ref_slot 3 0x20 \<noteq> None
   \<and> m_step (the (write_slot ref_chip ref_slot 3 0x20)) = 8192
   \<and> m_step (the (write_slot ref_chip ref_slot 3 0x90)) = 16"
  using write_slot_pitch_step[of 3 ref_chip ref_slot "0x20"]
    write_slot_pitch_step[of 3 ref_chip ref_slot "0x90"]
  by (simp add: write_slot_def ref_eval)

text \<open>
  C1 as stated, at two inputs. With the octave field 9 the code shifts the entry 4096
  right by 8 bits, and no left shift of 4096 gives 16; with the octave field 2 it shifts
  left by one bit, and no right shift of 4096 gives 8192.
\<close>

theorem write_slot_pitch_direction:
  "m_step (the (write_slot ref_chip ref_slot 3 0x90)) = 16
   \<and> 16 \<notin> set (spec_scaled_steps ref_chip [0, 0, 0, 0x90, 0, 0, 0, 0])
   \<and> m_step (the (write_slot ref_chip ref_slot 3 0x20)) = 8192
   \<and> 8192 \<notin> set (spec_scaled_steps ref_chip [0, 0, 0, 0x20, 0, 0, 0, 0])"
  by (simp add: write_slot_def spec_scaled_steps_def pitch_code_def ref_eval upt_32)

section \<open>Key on and key off\<close>

lemma envelope_generator_calc_frame:
  "envelope_generator_calc c (slot\<lparr>m_playing := p, m_offset := off, m_prev_sample := ps,
       m_total_level := lv\<rparr>) =
   map_option (\<lambda>e. e\<lparr>m_playing := p, m_offset := off, m_prev_sample := ps, m_total_level := lv\<rparr>)
     (envelope_generator_calc c slot)"
  unfolding envelope_generator_calc_def Let_def
  by (simp split: Option.bind_split)

lemma write_slot_4:
  "write_slot c slot 4 data =
     (let slot1 = slot\<lparr>m_regs := (m_regs slot)[4 := data]\<rparr> in
      if data AND 0x80 \<noteq> 0 then retrigger_sample c (slot1\<lparr>m_playing := True\<rparr>)
      else if m_playing slot then
        (if m_release_reg (m_sample slot) \<noteq> 0xf
         then Some (slot1\<lparr>m_envelope_gen := (m_envelope_gen slot)\<lparr>m_state := RELEASE\<rparr>\<rparr>)
         else Some (slot1\<lparr>m_playing := False\<rparr>))
      else Some slot1)"
  unfolding write_slot_def Let_def by simp

text \<open>
  What a write to register 4 does where the rate subscripts of
  \<^verbatim>\<open>envelope_generator_calc\<close> stay inside the step tables. With the top bit set the
  voice is marked playing and retriggered: where \<^verbatim>\<open>envelope_generator_calc\<close> on the
  voice with the new register gives \<open>e\<close> (the voice with its four rates and decay level
  recomputed), the result is \<open>e\<close> with the playing flag set, offset and previous sample
  0, the total level at its destination, and the envelope in ATTACK at volume 0. With
  the top bit clear on a playing voice, the envelope goes to RELEASE when the release
  register is not 0xF; when it is 0xF the voice stops playing and the envelope state is
  left as it was.
\<close>

theorem write_slot_key_on_off:
  "(data AND 0x80 \<noteq> 0
      \<and> envelope_generator_calc c (slot\<lparr>m_regs := (m_regs slot)[4 := data]\<rparr>) = Some e
    \<longrightarrow> write_slot c slot 4 data =
          Some (e\<lparr>m_playing := True, m_offset := 0, m_prev_sample := 0,
                  m_total_level := push_bit (TL_SHIFT c) (m_dest_total_level slot),
                  m_envelope_gen := (m_envelope_gen e)\<lparr>m_state := ATTACK, m_volume := 0\<rparr>\<rparr>))
   \<and> (data AND 0x80 = 0 \<and> m_playing slot \<and> m_release_reg (m_sample slot) \<noteq> 0xf
    \<longrightarrow> write_slot c slot 4 data =
          Some (slot\<lparr>m_regs := (m_regs slot)[4 := data],
                     m_envelope_gen := (m_envelope_gen slot)\<lparr>m_state := RELEASE\<rparr>\<rparr>))
   \<and> (data AND 0x80 = 0 \<and> m_playing slot \<and> m_release_reg (m_sample slot) = 0xf
    \<longrightarrow> write_slot c slot 4 data =
          Some (slot\<lparr>m_regs := (m_regs slot)[4 := data], m_playing := False\<rparr>))"
proof (intro conjI impI)
  assume a: "data AND 0x80 \<noteq> 0
      \<and> envelope_generator_calc c (slot\<lparr>m_regs := (m_regs slot)[4 := data]\<rparr>) = Some e"
  let ?s1 = "slot\<lparr>m_regs := (m_regs slot)[4 := data]\<rparr>"
  have "envelope_generator_calc c (?s1\<lparr>m_playing := True, m_offset := 0, m_prev_sample := 0,
       m_total_level := push_bit (TL_SHIFT c) (m_dest_total_level slot)\<rparr>)
     = Some (e\<lparr>m_playing := True, m_offset := 0, m_prev_sample := 0,
       m_total_level := push_bit (TL_SHIFT c) (m_dest_total_level slot)\<rparr>)"
    unfolding envelope_generator_calc_frame using a by simp
  then show "write_slot c slot 4 data =
          Some (e\<lparr>m_playing := True, m_offset := 0, m_prev_sample := 0,
                  m_total_level := push_bit (TL_SHIFT c) (m_dest_total_level slot),
                  m_envelope_gen := (m_envelope_gen e)\<lparr>m_state := ATTACK, m_volume := 0\<rparr>\<rparr>)"
    using a unfolding write_slot_4 retrigger_sample_def Let_def by simp
next
  assume "data AND 0x80 = 0 \<and> m_playing slot \<and> m_release_reg (m_sample slot) \<noteq> 0xf"
  then show "write_slot c slot 4 data =
          Some (slot\<lparr>m_regs := (m_regs slot)[4 := data],
                     m_envelope_gen := (m_envelope_gen slot)\<lparr>m_state := RELEASE\<rparr>\<rparr>)"
    unfolding write_slot_4 Let_def by simp
next
  assume "data AND 0x80 = 0 \<and> m_playing slot \<and> m_release_reg (m_sample slot) = 0xf"
  then show "write_slot c slot 4 data =
          Some (slot\<lparr>m_regs := (m_regs slot)[4 := data], m_playing := False\<rparr>)"
    unfolding write_slot_4 Let_def by simp
qed

theorem write_slot_key_on_off_witness:
  "write_slot ref_chip ref_slot 4 0x80 \<noteq> None
   \<and> m_playing (the (write_slot ref_chip ref_slot 4 0x80))
   \<and> m_state (m_envelope_gen (the (write_slot ref_chip ref_slot 4 0x80))) = ATTACK
   \<and> m_decay1_rate (m_envelope_gen (the (write_slot ref_chip ref_slot 4 0x80))) = 204
   \<and> m_playing (the (write_slot ref_chip (ref_slot\<lparr>m_playing := True\<rparr>) 4 0))
   \<and> m_state (m_envelope_gen (the (write_slot ref_chip (ref_slot\<lparr>m_playing := True\<rparr>) 4 0)))
        = RELEASE
   \<and> \<not> m_playing (the (write_slot ref_chip
          (ref_slot\<lparr>m_playing := True, m_sample := ref_sample\<lparr>m_release_reg := 0xf\<rparr>\<rparr>) 4 0))
   \<and> m_state (m_envelope_gen (the (write_slot ref_chip
          (ref_slot\<lparr>m_playing := True, m_sample := ref_sample\<lparr>m_release_reg := 0xf\<rparr>\<rparr>) 4 0)))
        = ATTACK"
proof -
  obtain e where e:
    "envelope_generator_calc ref_chip (ref_slot\<lparr>m_regs := (m_regs ref_slot)[4 := 0x80]\<rparr>) = Some e"
    by (simp add: rate_eval ref_eval)
  then have e': "e = the (envelope_generator_calc ref_chip
      (ref_slot\<lparr>m_regs := (m_regs ref_slot)[4 := 0x80]\<rparr>))"
    by simp
  from write_slot_key_on_off[of "0x80" ref_chip ref_slot e]
    write_slot_key_on_off[of 0 ref_chip "ref_slot\<lparr>m_playing := True\<rparr>" e]
    write_slot_key_on_off[of 0 ref_chip
      "ref_slot\<lparr>m_playing := True, m_sample := ref_sample\<lparr>m_release_reg := 0xf\<rparr>\<rparr>" e]
    e
  show ?thesis
    unfolding e' by (simp add: rate_eval ref_eval)
qed

text \<open>
  C2, at an input the code can receive. The voice has the pitch register
  \<^verbatim>\<open>m_regs[3] = 0x90\<close> (octave -8) and a sample with key-rate-scale 0 and attack
  register 1. The key-on write \<^verbatim>\<open>0x80\<close> to register 4 calls \<^verbatim>\<open>retrigger_sample\<close>, whose
  \<^verbatim>\<open>envelope_generator_calc\<close> reads the attack step table at subscript -12, below the
  table: the write does not give the retriggered voice. The same holds through the
  bus: address 3, data \<^verbatim>\<open>0x90\<close>, address 4, data \<^verbatim>\<open>0x80\<close> on voice 0.
\<close>

theorem write_slot_key_on_below_table:
  "write_slot ref_chip (ref_slot\<lparr>m_regs := [0, 0, 0, 0x90, 0, 0, 0, 0]\<rparr>) 4 0x80 = None
   \<and> Option.bind (device_write ref_chip ref_device 2 3) (\<lambda>d1.
       Option.bind (device_write ref_chip d1 0 0x90) (\<lambda>d2.
         device_write ref_chip d2 2 4))
       = Some (ref_device\<lparr>m_slots := (m_slots ref_device)
                  [0 := ref_slot\<lparr>m_regs := [0, 0, 0, 0x90, 0, 0, 0, 0], m_step := 16\<rparr>],
                m_address := 4\<rparr>)
   \<and> device_write ref_chip
         (ref_device\<lparr>m_slots := (m_slots ref_device)
                  [0 := ref_slot\<lparr>m_regs := [0, 0, 0, 0x90, 0, 0, 0, 0], m_step := 16\<rparr>],
                m_address := 4\<rparr>) 0 0x80
       = None
   \<and> get_rate_index
         (calc_rate 0x90 (m_key_rate_scale (m_sample ref_slot)))
         (ucast (m_attack_reg (m_sample ref_slot))) = - 12"
  by (simp add: device_write_def write_slot_def retrigger_sample_def rate_eval ref_eval)

section \<open>Bus interface\<close>

text \<open>
  C10. A bus write to an address above 2 returns the device as it was, and a read
  returns 0 and the device as it was.
\<close>

theorem device_write_beyond:
  "2 < offset \<Longrightarrow> device_write c d offset data = Some d \<and> device_read d = (0, d)"
  by (auto simp add: device_write_def device_read_def)

theorem device_write_beyond_witness:
  "(2 :: u32) < 3 \<and> device_write ref_chip ref_device 3 0xff = Some ref_device
     \<and> device_read ref_device = (0, ref_device)"
  using device_write_beyond[of 3 ref_chip ref_device "0xff"] by simp

text \<open>
  C5, at the four codes that select no voice. The select write stores the \<open>-1\<close> of
  \<open>VALUE_TO_CHANNEL\<close> in \<open>m_cur_slot\<close>; the data write that follows subscripts the 28
  voices with it, outside the array.
\<close>

theorem device_write_invalid_voice:
  "device_write ref_chip ref_device 1 0x07 = Some (ref_device\<lparr>m_cur_slot := - 1\<rparr>)
   \<and> device_write ref_chip ref_device 1 0x0f = Some (ref_device\<lparr>m_cur_slot := - 1\<rparr>)
   \<and> device_write ref_chip ref_device 1 0x17 = Some (ref_device\<lparr>m_cur_slot := - 1\<rparr>)
   \<and> device_write ref_chip ref_device 1 0x1f = Some (ref_device\<lparr>m_cur_slot := - 1\<rparr>)
   \<and> at_index (m_slots (ref_device\<lparr>m_cur_slot := - 1\<rparr>))
        (sint (m_cur_slot (ref_device\<lparr>m_cur_slot := - 1\<rparr>))) = None
   \<and> device_write ref_chip (ref_device\<lparr>m_cur_slot := - 1\<rparr>) 0 0x00 = None"
  by (simp add: device_write_def VALUE_TO_CHANNEL_def at_index_def ref_device_def)

section \<open>Envelope generator: the attack state\<close>

lemma sint_add_no_overflow:
  fixes v a :: s32
  assumes "- (2 ^ 31) \<le> sint v + sint a" "sint v + sint a < 2 ^ 31"
  shows "sint (v + a) = sint v + sint a"
proof -
  have "v + a = word_of_int (sint v + sint a)" by simp
  then show ?thesis using sint_word_of_int_32[OF assms] by simp
qed

lemma sint_push_bit_small:
  fixes n :: nat
  assumes "E \<le> 20" "n \<le> 0x400"
  shows "sint (push_bit E (of_nat n :: s32)) = int n * 2 ^ E"
proof -
  define m where "m = int n * 2 ^ E"
  have "(2::int) ^ E \<le> 2 ^ 20" using assms(1) by (intro power_increasing) simp_all
  then have "m \<le> 0x400 * 2 ^ 20"
    unfolding m_def using assms(2) by (intro mult_mono) simp_all
  moreover have "0 \<le> m" unfolding m_def by simp
  ultimately have b: "- (2 ^ 31) \<le> m" "m < 2 ^ 31" by simp_all
  have "push_bit E (of_nat n :: s32) = word_of_int m"
    unfolding m_def by (simp add: push_bit_eq_mult)
  then show ?thesis using sint_word_of_int_32[OF b] unfolding m_def by simp
qed

lemma sint_max_volume: "E \<le> 20 \<Longrightarrow> sint (push_bit E (0x3ff :: s32)) = 0x3ff * 2 ^ E"
  using sint_push_bit_small[of E "0x3ff"] by simp

lemma sint_max_rate: "E \<le> 20 \<Longrightarrow> sint (push_bit E (0x400 :: s32)) = 0x400 * 2 ^ E"
  using sint_push_bit_small[of E "0x400"] by simp

lemma volume_index:
  fixes x :: int
  assumes "0 \<le> x" "x \<le> 0x3ff * 2 ^ E"
  shows "0 \<le> x div 2 ^ E \<and> x div 2 ^ E < 0x400"
proof -
  have "x div 2 ^ E \<le> (0x3ff * 2 ^ E) div 2 ^ E"
    using assms(2) by (intro zdiv_mono1) simp_all
  then have "x div 2 ^ E \<le> 0x3ff" by simp
  moreover have "0 \<le> x div 2 ^ E" using assms(1) by (simp add: pos_imp_zdiv_nonneg_iff)
  ultimately show ?thesis by simp
qed

text \<open>
  C6. In the ATTACK state one envelope step adds the attack rate to the volume. Below
  the maximum \<open>0x3ff << EG_SHIFT\<close> the sum is the new volume and the state stays ATTACK;
  once the sum reaches the maximum, the volume is the maximum and the state becomes
  DECAY1, or DECAY2 when the decay1 rate is \<open>0x400 << EG_SHIFT\<close> or more. The step
  returns the gain of the new volume and leaves the playing flag alone. The volume and
  the rate are the non-negative values the tables hold, whose sum does not overflow.
\<close>

theorem envelope_generator_update_attack:
  fixes c :: chip and slot :: slot_t
  defines "v \<equiv> sint (m_volume (m_envelope_gen slot))"
    and "a \<equiv> sint (m_attack_rate (m_envelope_gen slot))"
    and "vmax \<equiv> 0x3ff * 2 ^ EG_SHIFT c"
  assumes st: "m_state (m_envelope_gen slot) = ATTACK"
    and E: "EG_SHIFT c \<le> 20"
    and len: "length (m_linear_to_exp_volume c) = 0x400"
    and v0: "0 \<le> v" and a0: "0 \<le> a" and novf: "v + a < 2 ^ 31"
  shows "\<exists>s' gain. envelope_generator_update c slot = Some (s', gain)
     \<and> sint (m_volume (m_envelope_gen s')) = min (v + a) vmax
     \<and> m_state (m_envelope_gen s') =
          (if v + a < vmax then ATTACK
           else if 0x400 * 2 ^ EG_SHIFT c \<le> sint (m_decay1_rate (m_envelope_gen slot))
                then DECAY2 else DECAY1)
     \<and> m_playing s' = m_playing slot
     \<and> gain = m_linear_to_exp_volume c ! nat (min (v + a) vmax div 2 ^ EG_SHIFT c)"
proof -
  let ?eg = "m_envelope_gen slot"
  let ?E = "EG_SHIFT c"
  have sum: "sint (m_volume ?eg + m_attack_rate ?eg) = v + a"
    unfolding v_def a_def using v0 a0 novf
    by (intro sint_add_no_overflow) (simp_all add: v_def a_def)
  have vmax: "sint (push_bit ?E (0x3ff :: s32)) = vmax"
    unfolding vmax_def by (rule sint_max_volume[OF E])
  have vmax0: "0 \<le> vmax" unfolding vmax_def by simp
  show ?thesis
  proof (cases "v + a < vmax")
    case True
    have idx: "0 \<le> (v + a) div 2 ^ ?E \<and> (v + a) div 2 ^ ?E < 0x400"
      using True v0 a0 unfolding vmax_def by (intro volume_index) simp_all
    show ?thesis
      using True st idx len
      by (simp add: envelope_generator_update_def Let_def word_sle_eq sum vmax
          sint_signed_drop_bit_eq drop_bit_eq_div at_index_def min_def)
  next
    case False
    have idx: "0 \<le> vmax div 2 ^ ?E \<and> vmax div 2 ^ ?E < 0x400"
      using vmax0 by (intro volume_index) (simp_all add: vmax_def)
    show ?thesis
      using False st idx len
      by (simp add: envelope_generator_update_def Let_def word_sle_eq sum vmax
          sint_max_rate[OF E] sint_signed_drop_bit_eq drop_bit_eq_div at_index_def min_def)
  qed
qed

theorem envelope_generator_update_attack_witness:
  "m_state (m_envelope_gen ref_slot) = ATTACK
   \<and> EG_SHIFT ref_chip \<le> 20
   \<and> length (m_linear_to_exp_volume ref_chip) = 0x400
   \<and> fst (the (envelope_generator_update ref_chip
        (ref_slot\<lparr>m_envelope_gen := (m_envelope_gen ref_slot)
           \<lparr>m_volume := 0x10000, m_attack_rate := 2934\<rparr>\<rparr>)))
      = ref_slot\<lparr>m_envelope_gen := (m_envelope_gen ref_slot)
           \<lparr>m_volume := 0x10B76, m_attack_rate := 2934\<rparr>\<rparr>
   \<and> fst (the (envelope_generator_update ref_chip
        (ref_slot\<lparr>m_envelope_gen := (m_envelope_gen ref_slot)
           \<lparr>m_volume := 0x3FE0000, m_attack_rate := 0x20000, m_decay1_rate := 204\<rparr>\<rparr>)))
      = ref_slot\<lparr>m_envelope_gen := (m_envelope_gen ref_slot)
           \<lparr>m_volume := 0x3FF0000, m_state := DECAY1, m_attack_rate := 0x20000,
            m_decay1_rate := 204\<rparr>\<rparr>
   \<and> fst (the (envelope_generator_update ref_chip
        (ref_slot\<lparr>m_envelope_gen := (m_envelope_gen ref_slot)
           \<lparr>m_volume := 0x3FE0000, m_attack_rate := 0x20000, m_decay1_rate := 0x4000000\<rparr>\<rparr>)))
      = ref_slot\<lparr>m_envelope_gen := (m_envelope_gen ref_slot)
           \<lparr>m_volume := 0x3FF0000, m_state := DECAY2, m_attack_rate := 0x20000,
            m_decay1_rate := 0x4000000\<rparr>\<rparr>"
  using envelope_generator_update_attack[of
      "ref_slot\<lparr>m_envelope_gen := (m_envelope_gen ref_slot)
           \<lparr>m_volume := 0x10000, m_attack_rate := 2934\<rparr>\<rparr>" ref_chip]
    envelope_generator_update_attack[of
      "ref_slot\<lparr>m_envelope_gen := (m_envelope_gen ref_slot)
           \<lparr>m_volume := 0x3FE0000, m_attack_rate := 0x20000, m_decay1_rate := 204\<rparr>\<rparr>" ref_chip]
    envelope_generator_update_attack[of
      "ref_slot\<lparr>m_envelope_gen := (m_envelope_gen ref_slot)
           \<lparr>m_volume := 0x3FE0000, m_attack_rate := 0x20000, m_decay1_rate := 0x4000000\<rparr>\<rparr>" ref_chip]
  by (simp add: envelope_generator_update_def at_index_def word_sle_eq ref_eval)

section \<open>One output sample of one voice\<close>

lemma modulated_step_frame:
  "modulated_step c slot = Some (s1, st) \<Longrightarrow> s1 = slot\<lparr>m_pitch_lfo := m_pitch_lfo s1\<rparr>"
  by (auto simp add: modulated_step_def split: if_splits Option.bind_splits)


lemma tremolo_frame:
  "tremolo c slot x = Some (s5, y) \<Longrightarrow> s5 = slot\<lparr>m_amplitude_lfo := m_amplitude_lfo s5\<rparr>"
  by (auto simp add: tremolo_def split: if_splits Option.bind_splits)

lemma envelope_generator_update_frame:
  "envelope_generator_update c slot = Some (s6, g) \<Longrightarrow>
     s6 = slot\<lparr>m_envelope_gen := m_envelope_gen s6, m_playing := m_playing s6\<rparr>
     \<and> (m_playing s6 = m_playing slot \<or> m_state (m_envelope_gen slot) = RELEASE)"
  by (cases "m_state (m_envelope_gen slot)")
     (auto simp add: envelope_generator_update_def Let_def split: if_splits)

lemma slot_update_parts:
  assumes "slot_update c slot = Some (s', l, r)"
  obtains s1 st s5 x y g where
    "modulated_step c slot = Some (s1, st)"
    "tremolo c (ramp_total_level c
        (let s2 = advance_offset c s1 st
         in if drop_bit (TL_SHIFT c) (m_offset slot) XOR drop_bit (TL_SHIFT c) (m_offset s2) \<noteq> 0
            then s2\<lparr>m_prev_sample := fetch_sample c slot (drop_bit (TL_SHIFT c) (m_offset slot))\<rparr>
            else s2)) x = Some (s5, y)"
    "envelope_generator_update c s5 = Some (s', g)"
  using assms unfolding slot_update_def Let_def
  by (auto split: Option.bind_splits)

lemma modulated_step_fields:
  assumes "modulated_step c slot = Some (s1, st)"
  shows "m_offset s1 = m_offset slot \<and> m_sample s1 = m_sample slot
     \<and> m_total_level s1 = m_total_level slot
     \<and> m_dest_total_level s1 = m_dest_total_level slot
     \<and> m_total_level_step s1 = m_total_level_step slot
     \<and> m_playing s1 = m_playing slot \<and> m_envelope_gen s1 = m_envelope_gen slot"
proof -
  obtain p where "s1 = slot\<lparr>m_pitch_lfo := p\<rparr>"
    using modulated_step_frame[OF assms] by blast
  then show ?thesis by simp
qed

lemma tremolo_fields:
  assumes "tremolo c slot x = Some (s5, y)"
  shows "m_offset s5 = m_offset slot \<and> m_sample s5 = m_sample slot
     \<and> m_total_level s5 = m_total_level slot
     \<and> m_dest_total_level s5 = m_dest_total_level slot
     \<and> m_total_level_step s5 = m_total_level_step slot
     \<and> m_playing s5 = m_playing slot \<and> m_envelope_gen s5 = m_envelope_gen slot"
proof -
  obtain p where "s5 = slot\<lparr>m_amplitude_lfo := p\<rparr>"
    using tremolo_frame[OF assms] by blast
  then show ?thesis by simp
qed

lemma envelope_generator_update_fields:
  assumes "envelope_generator_update c slot = Some (s6, g)"
  shows "m_offset s6 = m_offset slot \<and> m_sample s6 = m_sample slot
     \<and> m_total_level s6 = m_total_level slot
     \<and> m_dest_total_level s6 = m_dest_total_level slot
     \<and> m_total_level_step s6 = m_total_level_step slot
     \<and> (m_playing s6 = m_playing slot \<or> m_state (m_envelope_gen slot) = RELEASE)"
proof -
  obtain e p where "s6 = slot\<lparr>m_envelope_gen := e, m_playing := p\<rparr>"
    using envelope_generator_update_frame[OF assms] by blast
  then show ?thesis using envelope_generator_update_frame[OF assms] by simp
qed

lemma advance_offset_fields:
  "m_sample (advance_offset c s st) = m_sample s
   \<and> m_total_level (advance_offset c s st) = m_total_level s
   \<and> m_dest_total_level (advance_offset c s st) = m_dest_total_level s
   \<and> m_total_level_step (advance_offset c s st) = m_total_level_step s
   \<and> m_playing (advance_offset c s st) = m_playing s
   \<and> m_envelope_gen (advance_offset c s st) = m_envelope_gen s"
  by (simp add: advance_offset_def Let_def)

lemma advance_offset_offset:
  "m_offset (advance_offset c s st) =
     (if push_bit (TL_SHIFT c) (m_end (m_sample s)) \<le> m_offset s + st
      then push_bit (TL_SHIFT c) (m_loop (m_sample s)) else m_offset s + st)"
  by (simp add: advance_offset_def Let_def)

lemma ramp_total_level_fields:
  "m_offset (ramp_total_level c s) = m_offset s
   \<and> m_sample (ramp_total_level c s) = m_sample s
   \<and> m_dest_total_level (ramp_total_level c s) = m_dest_total_level s
   \<and> m_total_level_step (ramp_total_level c s) = m_total_level_step s
   \<and> m_playing (ramp_total_level c s) = m_playing s
   \<and> m_envelope_gen (ramp_total_level c s) = m_envelope_gen s"
  by (simp add: ramp_total_level_def)

lemma ramp_total_level_level:
  "m_total_level (ramp_total_level c s) =
     (if drop_bit (TL_SHIFT c) (m_total_level s) \<noteq> m_dest_total_level s
      then m_total_level s + m_total_level_step s else m_total_level s)"
  by (simp add: ramp_total_level_def)

lemma slot_update_fields:
  assumes u: "slot_update c slot = Some (s', l, r)"
    and m: "modulated_step c slot = Some (s1, st)"
  shows "m_offset s' = m_offset (advance_offset c slot st)"
    and "m_sample s' = m_sample slot"
    and "m_total_level s' = m_total_level (ramp_total_level c slot)"
    and "m_dest_total_level s' = m_dest_total_level slot"
    and "m_total_level_step s' = m_total_level_step slot"
    and "m_playing s' = m_playing slot \<or> m_state (m_envelope_gen slot) = RELEASE"
proof -
  from u obtain s1' st' s5 x y g where
    m': "modulated_step c slot = Some (s1', st')" and
    t: "tremolo c (ramp_total_level c
        (let s2 = advance_offset c s1' st'
         in if drop_bit (TL_SHIFT c) (m_offset slot) XOR drop_bit (TL_SHIFT c) (m_offset s2) \<noteq> 0
            then s2\<lparr>m_prev_sample := fetch_sample c slot (drop_bit (TL_SHIFT c) (m_offset slot))\<rparr>
            else s2)) x = Some (s5, y)" and
    e: "envelope_generator_update c s5 = Some (s', g)"
    by (rule slot_update_parts)
  from m m' have eq: "s1' = s1" "st' = st" by simp_all
  define s2 where "s2 = advance_offset c s1 st"
  define s3 where "s3 = (if drop_bit (TL_SHIFT c) (m_offset slot) XOR drop_bit (TL_SHIFT c) (m_offset s2) \<noteq> 0
            then s2\<lparr>m_prev_sample := fetch_sample c slot (drop_bit (TL_SHIFT c) (m_offset slot))\<rparr>
            else s2)"
  define s4 where "s4 = ramp_total_level c s3"
  have t': "tremolo c s4 x = Some (s5, y)"
    using t unfolding eq s4_def s3_def s2_def Let_def .
  note f1 = modulated_step_fields[OF m]
  note f5 = tremolo_fields[OF t']
  note f6 = envelope_generator_update_fields[OF e]
  have f3: "m_offset s3 = m_offset s2 \<and> m_sample s3 = m_sample s2
     \<and> m_total_level s3 = m_total_level s2
     \<and> m_dest_total_level s3 = m_dest_total_level s2
     \<and> m_total_level_step s3 = m_total_level_step s2
     \<and> m_playing s3 = m_playing s2 \<and> m_envelope_gen s3 = m_envelope_gen s2"
    unfolding s3_def by simp
  have f2: "m_sample s2 = m_sample slot
     \<and> m_total_level s2 = m_total_level slot
     \<and> m_dest_total_level s2 = m_dest_total_level slot
     \<and> m_total_level_step s2 = m_total_level_step slot
     \<and> m_playing s2 = m_playing slot \<and> m_envelope_gen s2 = m_envelope_gen slot"
    unfolding s2_def using advance_offset_fields[of c s1 st] f1 by simp
  have o2: "m_offset s2 = m_offset (advance_offset c slot st)"
    unfolding s2_def advance_offset_offset using f1 by simp
  have f4: "m_offset s4 = m_offset s3 \<and> m_sample s4 = m_sample s3
     \<and> m_dest_total_level s4 = m_dest_total_level s3
     \<and> m_total_level_step s4 = m_total_level_step s3
     \<and> m_playing s4 = m_playing s3 \<and> m_envelope_gen s4 = m_envelope_gen s3"
    unfolding s4_def using ramp_total_level_fields[of c s3] by simp
  have l4: "m_total_level s4 = m_total_level (ramp_total_level c slot)"
    unfolding s4_def ramp_total_level_level using f3 f2 by simp
  show "m_offset s' = m_offset (advance_offset c slot st)"
    using f6 f5 f4 f3 o2 by simp
  show "m_sample s' = m_sample slot"
    using f6 f5 f4 f3 f2 by simp
  show "m_total_level s' = m_total_level (ramp_total_level c slot)"
    using f6 f5 l4 by simp
  show "m_dest_total_level s' = m_dest_total_level slot"
    using f6 f5 f4 f3 f2 by simp
  show "m_total_level_step s' = m_total_level_step slot"
    using f6 f5 f4 f3 f2 by simp
  have "m_state (m_envelope_gen s5) = m_state (m_envelope_gen slot)" "m_playing s5 = m_playing slot"
    using f5 f4 f3 f2 by simp_all
  then show "m_playing s' = m_playing slot \<or> m_state (m_envelope_gen slot) = RELEASE"
    using f6 by auto
qed


lemmas render_eval = slot_tick_def slot_update_def modulated_step_def advance_offset_def
  ramp_total_level_def tremolo_def fetch_sample_def envelope_generator_update_def
  at_index_def word_sle_eq Let_def


section \<open>Total level\<close>

lemma ramp_up_nat:
  fixes L D u P :: nat
  assumes "0 < P" "L div P < D" "u \<le> P"
  shows "(L + u) div P \<le> D"
proof -
  have "L < D * P" using assms(1,2) by (simp add: div_less_iff_less_mult)
  then have "L + u < (D + 1) * P" using assms(3) by simp
  then have "(L + u) div P < D + 1" using assms(1) by (simp add: div_less_iff_less_mult)
  then show ?thesis by simp
qed

lemma ramp_down_nat:
  fixes L D d P :: nat
  assumes "0 < P" "D < L div P" "d \<le> P"
  shows "d \<le> L" and "D \<le> (L - d) div P" and "(L - d) div P \<le> L div P"
proof -
  have "D + 1 \<le> L div P" using assms(2) by simp
  then have a: "(D + 1) * P \<le> L" using assms(1) by (simp add: less_eq_div_iff_mult_less_eq)
  then show "d \<le> L" using assms(3) by simp
  have "D * P \<le> L - d" using a assms(3) by simp
  then show "D \<le> (L - d) div P" using assms(1) by (simp add: less_eq_div_iff_mult_less_eq)
  show "(L - d) div P \<le> L div P" by (rule div_le_mono) simp
qed

lemma uint_add_signed:
  fixes x s :: "32 word"
  assumes "0 \<le> uint x + sint s" "uint x + sint s < 2 ^ 32"
  shows "uint (x + s) = uint x + sint s"
proof -
  have "x + s = word_of_int (uint x + sint s)" by simp
  then have "uint (x + s) = take_bit 32 (uint x + sint s)"
    by (simp only: uint_word_of_int_eq) simp
  then show ?thesis using assms by (simp add: take_bit_int_eq_self)
qed

lemma unat_add_signed_up:
  fixes x s :: "32 word"
  assumes "0 \<le> sint s" "unat x + nat (sint s) < 2 ^ 32"
  shows "unat (x + s) = unat x + nat (sint s)"
proof -
  define X where "X = unat x"
  define S where "S = sint s"
  have ux: "uint x = int X" unfolding X_def by simp
  have S0: "0 \<le> S" using assms(1) unfolding S_def .
  have "X + nat S < 2 ^ 32" using assms(2) unfolding X_def S_def .
  then have "int (X + nat S) < int (2 ^ 32)" by (simp only: of_nat_less_iff)
  then have b: "int X + S < 2 ^ 32" using S0 by simp
  have "0 \<le> int X + S" using S0 by simp
  then have "uint (x + s) = int X + S"
    using b uint_add_signed[of x s] unfolding ux S_def by simp
  then have "unat (x + s) = nat (int X + S)" by (simp add: unat_eq_nat_uint)
  also have "\<dots> = X + nat S" using S0 by (simp add: nat_add_distrib)
  finally show ?thesis unfolding X_def S_def .
qed

lemma unat_add_signed_down:
  fixes x s :: "32 word"
  assumes "sint s < 0" "nat (- sint s) \<le> unat x"
  shows "unat (x + s) = unat x - nat (- sint s)"
proof -
  define X where "X = unat x"
  define S where "S = sint s"
  have ux: "uint x = int X" unfolding X_def by simp
  have S0: "S < 0" using assms(1) unfolding S_def .
  have le: "nat (- S) \<le> X" using assms(2) unfolding X_def S_def .
  then have a: "0 \<le> int X + S" using S0 by linarith
  have "X < 2 ^ 32" unfolding X_def using unsigned_less[of x] by simp
  then have "int X < 2 ^ 32" by (metis of_nat_less_iff of_nat_numeral of_nat_power)
  then have b: "int X + S < 2 ^ 32" using S0 by linarith
  have "uint (x + s) = int X + S"
    using a b uint_add_signed[of x s] unfolding ux S_def by simp
  then have "unat (x + s) = nat (int X + S)" by (simp add: unat_eq_nat_uint)
  also have "\<dots> = X - nat (- S)" using S0 le by linarith
  finally show ?thesis unfolding X_def S_def .
qed

lemma unat_push_bit_small:
  fixes D :: "32 word"
  assumes "T \<le> 24" "unat D \<le> 127"
  shows "unat (push_bit T D) = unat D * 2 ^ T"
proof -
  define n where "n = unat D"
  have "(2::nat) ^ T \<le> 2 ^ 24" using assms(1) by (intro power_increasing) simp_all
  then have "n * 2 ^ T \<le> 127 * 2 ^ 24"
    using assms(2) unfolding n_def by (intro mult_le_mono) simp_all
  then have "n * 2 ^ T < 2 ^ 32" by simp
  then have "take_bit 32 (n * 2 ^ T) = n * 2 ^ T" by (simp add: take_bit_nat_eq_self)
  then show ?thesis
    unfolding unsigned_push_bit_eq n_def[symmetric] by (simp add: push_bit_eq_mult)
qed

lemma unat_level:
  fixes x :: "32 word"
  shows "unat (drop_bit T x) = unat x div 2 ^ T"
  unfolding unat_drop_bit_eq by (simp add: drop_bit_eq_div)

lemma level_of_push_bit:
  fixes D :: "32 word"
  assumes "T \<le> 24" "D \<le> 0x7f"
  shows "drop_bit T (push_bit T D) = D"
proof -
  have d: "unat D \<le> 127" using assms(2) by (simp add: word_le_nat_alt)
  have "unat (drop_bit T (push_bit T D)) = unat D"
    unfolding unat_level unat_push_bit_small[OF assms(1) d] by simp
  then show ?thesis by (simp add: word_unat_eq_iff)
qed

lemma level_inv_cong:
  "m_total_level a = m_total_level b \<Longrightarrow> m_dest_total_level a = m_dest_total_level b
   \<Longrightarrow> m_total_level_step a = m_total_level_step b \<Longrightarrow> level_inv c a = level_inv c b"
  by (simp add: level_inv_def)

lemma write_slot_5:
  "write_slot c slot 5 data =
     Some (let slot1 = slot\<lparr>m_regs := (m_regs slot)[5 := data],
                             m_dest_total_level := drop_bit 1 (ucast data) AND 0x7f\<rparr>
           in if data AND 1 = 0
              then (if m_dest_total_level slot1 < drop_bit (TL_SHIFT c) (m_total_level slot)
                    then slot1\<lparr>m_total_level_step := m_total_level_steps c ! 0\<rparr>
                    else slot1\<lparr>m_total_level_step := m_total_level_steps c ! 1\<rparr>)
              else slot1\<lparr>m_total_level := push_bit (TL_SHIFT c) (m_dest_total_level slot1)\<rparr>)"
  unfolding write_slot_def Let_def by simp

lemma level_inv_write_slot_5:
  assumes T: "TL_SHIFT c \<le> 24"
    and init: "drop_bit (TL_SHIFT c) (m_total_level slot) \<le> 0x7f"
    and w: "write_slot c slot 5 data = Some s0"
  shows "level_inv c s0"
    and "m_dest_total_level s0 = drop_bit 1 (ucast data) AND 0x7f"
proof -
  define D :: u32 where "D = drop_bit 1 (ucast data) AND 0x7f"
  have D: "D \<le> 0x7f" unfolding D_def by (rule word_and_le1)
  have rt: "drop_bit (TL_SHIFT c) (push_bit (TL_SHIFT c) D) = D"
    by (rule level_of_push_bit[OF T D])
  show "m_dest_total_level s0 = drop_bit 1 (ucast data) AND 0x7f"
    using w unfolding write_slot_5 Let_def by (auto split: if_splits)
  show "level_inv c s0"
    using w init D rt unfolding write_slot_5 Let_def level_inv_def D_def
    by (auto split: if_splits)
qed

lemma ramp_total_level_props:
  assumes T: "TL_SHIFT c \<le> 24"
    and lo: "- (2 ^ TL_SHIFT c) \<le> sint (m_total_level_steps c ! 0)"
            "sint (m_total_level_steps c ! 0) < 0"
    and hi: "0 < sint (m_total_level_steps c ! 1)"
            "sint (m_total_level_steps c ! 1) \<le> 2 ^ TL_SHIFT c"
    and inv: "level_inv c s"
  shows "level_inv c (ramp_total_level c s)"
    and "drop_bit (TL_SHIFT c) (m_total_level s) = m_dest_total_level s
           \<longrightarrow> ramp_total_level c s = s"
    and "drop_bit (TL_SHIFT c) (m_total_level s) < m_dest_total_level s
           \<longrightarrow> m_total_level s < m_total_level (ramp_total_level c s)
             \<and> drop_bit (TL_SHIFT c) (m_total_level (ramp_total_level c s)) \<le> m_dest_total_level s
             \<and> m_total_level_step s = m_total_level_steps c ! 1"
    and "m_dest_total_level s < drop_bit (TL_SHIFT c) (m_total_level s)
           \<longrightarrow> m_total_level (ramp_total_level c s) < m_total_level s
             \<and> m_dest_total_level s \<le> drop_bit (TL_SHIFT c) (m_total_level (ramp_total_level c s))
             \<and> m_total_level_step s = m_total_level_steps c ! 0"
proof -
  define P :: nat where "P = 2 ^ TL_SHIFT c"
  define L where "L = unat (m_total_level s)"
  define D where "D = unat (m_dest_total_level s)"
  define x' where "x' = m_total_level s + m_total_level_step s"
  have P0: "0 < P" unfolding P_def by simp
  have P24: "P \<le> 2 ^ 24" unfolding P_def using T by (intro power_increasing) simp_all
  have lv: "unat (drop_bit (TL_SHIFT c) (m_total_level s)) = L div P"
    unfolding L_def P_def by (rule unat_level)
  have lv': "unat (drop_bit (TL_SHIFT c) x') = unat x' div P"
    unfolding P_def by (rule unat_level)
  have D127: "D \<le> 127" and L127: "L div P \<le> 127"
    using inv unfolding level_inv_def D_def lv[symmetric] by (simp_all add: word_le_nat_alt)
  have eq_case: "drop_bit (TL_SHIFT c) (m_total_level s) = m_dest_total_level s
           \<longrightarrow> ramp_total_level c s = s"
    by (simp add: ramp_total_level_def)
  have up: "L < unat x' \<and> unat x' div P \<le> D \<and> m_total_level_step s = m_total_level_steps c ! 1"
    if lt: "L div P < D"
  proof -
    have st: "m_total_level_step s = m_total_level_steps c ! 1"
      using inv lt unfolding level_inv_def by (simp add: word_less_nat_alt lv D_def)
    define u where "u = nat (sint (m_total_level_step s))"
    have u0: "0 < u" and uP: "u \<le> P"
      using hi unfolding u_def st P_def by (simp_all add: nat_le_iff)
    have "L < D * P" using lt P0 by (simp add: div_less_iff_less_mult)
    also have "\<dots> \<le> 127 * 2 ^ 24" using D127 P24 by (intro mult_le_mono)
    finally have "L + u < 2 ^ 32" using uP P24 by simp
    then have "unat x' = L + u"
      unfolding x'_def L_def u_def using hi(1) unfolding st[symmetric]
      by (intro unat_add_signed_up) simp_all
    then show ?thesis using u0 ramp_up_nat[OF P0 lt uP] st by simp
  qed
  have down: "unat x' < L \<and> D \<le> unat x' div P \<and> unat x' div P \<le> L div P
        \<and> m_total_level_step s = m_total_level_steps c ! 0"
    if gt: "D < L div P"
  proof -
    have st: "m_total_level_step s = m_total_level_steps c ! 0"
      using inv gt unfolding level_inv_def by (simp add: word_less_nat_alt lv D_def)
    define d where "d = nat (- sint (m_total_level_step s))"
    have d0: "0 < d" and dP: "d \<le> P"
      using lo unfolding d_def st P_def by (simp_all add: nat_le_iff)
    note r = ramp_down_nat[OF P0 gt dP]
    have "unat x' = L - d"
      unfolding x'_def L_def d_def using lo(2) r(1) unfolding st[symmetric] L_def d_def
      by (intro unat_add_signed_down) simp_all
    then show ?thesis using d0 r st by simp
  qed
  have ramp: "drop_bit (TL_SHIFT c) (m_total_level s) \<noteq> m_dest_total_level s
     \<Longrightarrow> ramp_total_level c s = s\<lparr>m_total_level := x'\<rparr>"
    unfolding x'_def by (simp add: ramp_total_level_def)
  show "drop_bit (TL_SHIFT c) (m_total_level s) = m_dest_total_level s
           \<longrightarrow> ramp_total_level c s = s"
    by (rule eq_case)
  show c3: "drop_bit (TL_SHIFT c) (m_total_level s) < m_dest_total_level s
           \<longrightarrow> m_total_level s < m_total_level (ramp_total_level c s)
             \<and> drop_bit (TL_SHIFT c) (m_total_level (ramp_total_level c s)) \<le> m_dest_total_level s
             \<and> m_total_level_step s = m_total_level_steps c ! 1"
  proof
    assume a: "drop_bit (TL_SHIFT c) (m_total_level s) < m_dest_total_level s"
    then have lt: "L div P < D" by (simp add: word_less_nat_alt lv D_def)
    from a have ne: "drop_bit (TL_SHIFT c) (m_total_level s) \<noteq> m_dest_total_level s" by simp
    show "m_total_level s < m_total_level (ramp_total_level c s)
             \<and> drop_bit (TL_SHIFT c) (m_total_level (ramp_total_level c s)) \<le> m_dest_total_level s
             \<and> m_total_level_step s = m_total_level_steps c ! 1"
      using up[OF lt] unfolding ramp[OF ne]
      by (simp add: word_less_nat_alt word_le_nat_alt lv' L_def D_def)
  qed
  show c4: "m_dest_total_level s < drop_bit (TL_SHIFT c) (m_total_level s)
           \<longrightarrow> m_total_level (ramp_total_level c s) < m_total_level s
             \<and> m_dest_total_level s \<le> drop_bit (TL_SHIFT c) (m_total_level (ramp_total_level c s))
             \<and> m_total_level_step s = m_total_level_steps c ! 0"
  proof
    assume a: "m_dest_total_level s < drop_bit (TL_SHIFT c) (m_total_level s)"
    then have gt: "D < L div P" by (simp add: word_less_nat_alt lv D_def)
    from a have ne: "drop_bit (TL_SHIFT c) (m_total_level s) \<noteq> m_dest_total_level s" by simp
    show "m_total_level (ramp_total_level c s) < m_total_level s
             \<and> m_dest_total_level s \<le> drop_bit (TL_SHIFT c) (m_total_level (ramp_total_level c s))
             \<and> m_total_level_step s = m_total_level_steps c ! 0"
      using down[OF gt] unfolding ramp[OF ne]
      by (simp add: word_less_nat_alt word_le_nat_alt lv' L_def D_def)
  qed
  show "level_inv c (ramp_total_level c s)"
  proof (cases "drop_bit (TL_SHIFT c) (m_total_level s) = m_dest_total_level s")
    case True
    then show ?thesis using inv eq_case by simp
  next
    case ne: False
    show ?thesis
    proof (cases "drop_bit (TL_SHIFT c) (m_total_level s) < m_dest_total_level s")
      case True
      then have lt: "L div P < D" by (simp add: word_less_nat_alt lv D_def)
      show ?thesis
        using up[OF lt] inv D127 unfolding ramp[OF ne] level_inv_def
        by (simp add: word_less_nat_alt word_le_nat_alt lv' L_def D_def)
    next
      case False
      with ne have a: "m_dest_total_level s < drop_bit (TL_SHIFT c) (m_total_level s)" by simp
      then have gt: "D < L div P" by (simp add: word_less_nat_alt lv D_def)
      show ?thesis
        using down[OF gt] inv L127 unfolding ramp[OF ne] level_inv_def
        by (simp add: word_less_nat_alt word_le_nat_alt lv' L_def D_def)
    qed
  qed
qed

lemma slot_tick_level:
  assumes t: "slot_tick c s = Some (s', l, r)"
  shows "m_total_level s' =
           (if m_playing s then m_total_level (ramp_total_level c s) else m_total_level s)"
    and "m_dest_total_level s' = m_dest_total_level s"
    and "m_total_level_step s' = m_total_level_step s"
proof -
  have "m_total_level s' =
           (if m_playing s then m_total_level (ramp_total_level c s) else m_total_level s)
     \<and> m_dest_total_level s' = m_dest_total_level s
     \<and> m_total_level_step s' = m_total_level_step s"
  proof (cases "m_playing s")
    case True
    with t have u: "slot_update c s = Some (s', l, r)" by (simp add: slot_tick_def)
    then obtain s1 st where m: "modulated_step c s = Some (s1, st)"
      by (rule slot_update_parts)
    show ?thesis using slot_update_fields(3,4,5)[OF u m] True by simp
  next
    case False
    with t show ?thesis by (simp add: slot_tick_def)
  qed
  then show "m_total_level s' =
           (if m_playing s then m_total_level (ramp_total_level c s) else m_total_level s)"
    and "m_dest_total_level s' = m_dest_total_level s"
    and "m_total_level_step s' = m_total_level_step s"
    by simp_all
qed

lemma level_inv_slot_tick:
  assumes T: "TL_SHIFT c \<le> 24"
    and lo: "- (2 ^ TL_SHIFT c) \<le> sint (m_total_level_steps c ! 0)"
            "sint (m_total_level_steps c ! 0) < 0"
    and hi: "0 < sint (m_total_level_steps c ! 1)"
            "sint (m_total_level_steps c ! 1) \<le> 2 ^ TL_SHIFT c"
    and inv: "level_inv c s"
    and t: "slot_tick c s = Some (s', l, r)"
  shows "level_inv c s'"
proof (cases "m_playing s")
  case True
  have "level_inv c s' = level_inv c (ramp_total_level c s)"
    using slot_tick_level[OF t] True ramp_total_level_fields[of c s]
    by (intro level_inv_cong) simp_all
  then show ?thesis using ramp_total_level_props(1)[OF T lo hi inv] by simp
next
  case False
  have "level_inv c s' = level_inv c s"
    using slot_tick_level[OF t] False by (intro level_inv_cong) simp_all
  then show ?thesis using inv by simp
qed

lemma level_inv_slot_ticks:
  assumes T: "TL_SHIFT c \<le> 24"
    and lo: "- (2 ^ TL_SHIFT c) \<le> sint (m_total_level_steps c ! 0)"
            "sint (m_total_level_steps c ! 0) < 0"
    and hi: "0 < sint (m_total_level_steps c ! 1)"
            "sint (m_total_level_steps c ! 1) \<le> 2 ^ TL_SHIFT c"
  shows "level_inv c s0 \<Longrightarrow> slot_ticks c n s0 = Some s1 \<Longrightarrow>
     level_inv c s1 \<and> m_dest_total_level s1 = m_dest_total_level s0
       \<and> m_total_level_step s1 = m_total_level_step s0"
proof (induction n arbitrary: s0)
  case 0
  then show ?case by simp
next
  case (Suc n)
  from Suc.prems(2) obtain s' l r where
    t: "slot_tick c s0 = Some (s', l, r)" and rest: "slot_ticks c n s' = Some s1"
    by (auto split: Option.bind_splits)
  have "level_inv c s'" by (rule level_inv_slot_tick[OF T lo hi Suc.prems(1) t])
  from Suc.IH[OF this rest] slot_tick_level(2,3)[OF t] show ?case by simp
qed

text \<open>
  C7. Take a voice whose level is at most \<open>0x7f\<close>, write register 5, let any number of
  output samples pass (\<open>s1\<close>) and then one more (\<open>s2\<close>). The destination is the one
  written and the step is the one chosen by the write; the level is at most \<open>0x7f\<close>
  before and after the sample; the sample leaves the total level alone or adds that
  step to it. At the destination the total level no longer changes. Below the
  destination it does not fall and the new level is not above the destination, and it
  rises (by the raise step) when the voice is playing; above the destination it does
  not rise and the new level is not below the destination, and it falls (by the lower
  step) when the voice is playing. The two steps are the ones \<^verbatim>\<open>device_start\<close>
  computes: the lower one negative, the raise one positive, neither more than one
  level (\<open>1 << TL_SHIFT\<close>).
\<close>

theorem total_level_ramp:
  assumes T: "TL_SHIFT c \<le> 24"
    and lo: "- (2 ^ TL_SHIFT c) \<le> sint (m_total_level_steps c ! 0)"
            "sint (m_total_level_steps c ! 0) < 0"
    and hi: "0 < sint (m_total_level_steps c ! 1)"
            "sint (m_total_level_steps c ! 1) \<le> 2 ^ TL_SHIFT c"
    and init: "drop_bit (TL_SHIFT c) (m_total_level slot) \<le> 0x7f"
    and w: "write_slot c slot 5 data = Some s0"
    and run: "slot_ticks c n s0 = Some s1"
    and tick: "slot_tick c s1 = Some (s2, l, r)"
  shows "m_dest_total_level s1 = drop_bit 1 (ucast data) AND 0x7f
     \<and> m_dest_total_level s2 = m_dest_total_level s1
     \<and> m_total_level_step s1 = m_total_level_step s0
     \<and> drop_bit (TL_SHIFT c) (m_total_level s1) \<le> 0x7f
     \<and> drop_bit (TL_SHIFT c) (m_total_level s2) \<le> 0x7f
     \<and> (m_total_level s2 = m_total_level s1
          \<or> m_total_level s2 = m_total_level s1 + m_total_level_step s0)
     \<and> (drop_bit (TL_SHIFT c) (m_total_level s1) = m_dest_total_level s1
          \<longrightarrow> m_total_level s2 = m_total_level s1)
     \<and> (drop_bit (TL_SHIFT c) (m_total_level s1) < m_dest_total_level s1
          \<longrightarrow> m_total_level s1 \<le> m_total_level s2
              \<and> drop_bit (TL_SHIFT c) (m_total_level s2) \<le> m_dest_total_level s1
              \<and> (m_playing s1 \<longrightarrow> m_total_level s1 < m_total_level s2
                    \<and> m_total_level_step s0 = m_total_level_steps c ! 1))
     \<and> (m_dest_total_level s1 < drop_bit (TL_SHIFT c) (m_total_level s1)
          \<longrightarrow> m_total_level s2 \<le> m_total_level s1
              \<and> m_dest_total_level s1 \<le> drop_bit (TL_SHIFT c) (m_total_level s2)
              \<and> (m_playing s1 \<longrightarrow> m_total_level s2 < m_total_level s1
                    \<and> m_total_level_step s0 = m_total_level_steps c ! 0))"
proof -
  note i0 = level_inv_write_slot_5[OF T init w]
  note i1 = level_inv_slot_ticks[OF T lo hi i0(1) run]
  have inv1: "level_inv c s1" using i1 by simp
  have inv2: "level_inv c s2" by (rule level_inv_slot_tick[OF T lo hi inv1 tick])
  note lv = slot_tick_level[OF tick]
  note rp = ramp_total_level_props(2,3,4)[OF T lo hi inv1]
  have step: "m_total_level s2 = m_total_level s1
          \<or> m_total_level s2 = m_total_level s1 + m_total_level_step s0"
    using lv(1) i1 by (simp add: ramp_total_level_level)
  have a: "m_dest_total_level s1 = drop_bit 1 (ucast data) AND 0x7f
     \<and> m_dest_total_level s2 = m_dest_total_level s1
     \<and> m_total_level_step s1 = m_total_level_step s0
     \<and> drop_bit (TL_SHIFT c) (m_total_level s1) \<le> 0x7f
     \<and> drop_bit (TL_SHIFT c) (m_total_level s2) \<le> 0x7f"
    using i0(2) i1 lv(2) inv1 inv2 by (simp add: level_inv_def)
  have e: "drop_bit (TL_SHIFT c) (m_total_level s1) = m_dest_total_level s1
          \<longrightarrow> m_total_level s2 = m_total_level s1"
    using lv(1) rp(1) by auto
  have u: "drop_bit (TL_SHIFT c) (m_total_level s1) < m_dest_total_level s1
          \<longrightarrow> m_total_level s1 \<le> m_total_level s2
              \<and> drop_bit (TL_SHIFT c) (m_total_level s2) \<le> m_dest_total_level s1
              \<and> (m_playing s1 \<longrightarrow> m_total_level s1 < m_total_level s2
                    \<and> m_total_level_step s0 = m_total_level_steps c ! 1)"
    using lv(1) rp(2) i1 by (cases "m_playing s1") auto
  have d: "m_dest_total_level s1 < drop_bit (TL_SHIFT c) (m_total_level s1)
          \<longrightarrow> m_total_level s2 \<le> m_total_level s1
              \<and> m_dest_total_level s1 \<le> drop_bit (TL_SHIFT c) (m_total_level s2)
              \<and> (m_playing s1 \<longrightarrow> m_total_level s2 < m_total_level s1
                    \<and> m_total_level_step s0 = m_total_level_steps c ! 0)"
    using lv(1) rp(3) i1 by (cases "m_playing s1") auto
  from a step e u d show ?thesis by blast
qed

theorem total_level_ramp_witness:
  "TL_SHIFT ref_chip \<le> 24
   \<and> sint (m_total_level_steps ref_chip ! 0) = - 152
   \<and> sint (m_total_level_steps ref_chip ! 1) = 76
   \<and> drop_bit (TL_SHIFT ref_chip) (m_total_level (ref_slot\<lparr>m_playing := True\<rparr>)) \<le> 0x7f
   \<and> write_slot ref_chip (ref_slot\<lparr>m_playing := True\<rparr>) 5 6 = Some ramp_slot
   \<and> slot_ticks ref_chip 2 ramp_slot = Some (ramp_slot\<lparr>m_total_level := 152\<rparr>)
   \<and> slot_tick ref_chip (ramp_slot\<lparr>m_total_level := 152\<rparr>)
       = Some (ramp_slot\<lparr>m_total_level := 228\<rparr>, 0, 0)
   \<and> m_total_level (ramp_slot\<lparr>m_total_level := 152\<rparr>)
       < m_total_level (ramp_slot\<lparr>m_total_level := 228\<rparr>)
   \<and> drop_bit (TL_SHIFT ref_chip) (m_total_level (ramp_slot\<lparr>m_total_level := 228\<rparr>))
       \<le> m_dest_total_level ramp_slot
   \<and> write_slot ref_chip (ramp_slot\<lparr>m_total_level := 0x5000\<rparr>) 5 2
       = Some (ramp_slot\<lparr>m_regs := [0, 0, 0, 0, 0, 2, 0, 0], m_total_level := 0x5000,
            m_dest_total_level := 1, m_total_level_step := - 152\<rparr>)
   \<and> slot_tick ref_chip (ramp_slot\<lparr>m_regs := [0, 0, 0, 0, 0, 2, 0, 0], m_total_level := 0x5000,
            m_dest_total_level := 1, m_total_level_step := - 152\<rparr>)
       = Some (ramp_slot\<lparr>m_regs := [0, 0, 0, 0, 0, 2, 0, 0], m_total_level := 0x4F68,
            m_dest_total_level := 1, m_total_level_step := - 152\<rparr>, 0, 0)"
proof -
  have T: "TL_SHIFT ref_chip \<le> 24" by (simp add: ref_eval)
  have lo: "- (2 ^ TL_SHIFT ref_chip) \<le> sint (m_total_level_steps ref_chip ! 0)"
      "sint (m_total_level_steps ref_chip ! 0) < 0"
    by (simp_all add: ref_eval)
  have hi: "0 < sint (m_total_level_steps ref_chip ! 1)"
      "sint (m_total_level_steps ref_chip ! 1) \<le> 2 ^ TL_SHIFT ref_chip"
    by (simp_all add: ref_eval)
  have init: "drop_bit (TL_SHIFT ref_chip) (m_total_level (ref_slot\<lparr>m_playing := True\<rparr>)) \<le> 0x7f"
    by (simp add: ref_eval)
  have w: "write_slot ref_chip (ref_slot\<lparr>m_playing := True\<rparr>) 5 6 = Some ramp_slot"
    by (simp add: write_slot_def ramp_slot_def ref_eval)
  have t1: "slot_tick ref_chip ramp_slot = Some (ramp_slot\<lparr>m_total_level := 76\<rparr>, 0, 0)"
    by (simp add: render_eval ramp_slot_def ref_eval)
  have t2: "slot_tick ref_chip (ramp_slot\<lparr>m_total_level := 76\<rparr>)
      = Some (ramp_slot\<lparr>m_total_level := 152\<rparr>, 0, 0)"
    by (simp add: render_eval ramp_slot_def ref_eval)
  have run: "slot_ticks ref_chip 2 ramp_slot = Some (ramp_slot\<lparr>m_total_level := 152\<rparr>)"
    using t1 t2 by (simp add: eval_nat_numeral)
  have tick: "slot_tick ref_chip (ramp_slot\<lparr>m_total_level := 152\<rparr>)
      = Some (ramp_slot\<lparr>m_total_level := 228\<rparr>, 0, 0)"
    by (simp add: render_eval ramp_slot_def ref_eval)
  let ?high = "ramp_slot\<lparr>m_total_level := 0x5000\<rparr>"
  let ?fall = "ramp_slot\<lparr>m_regs := [0, 0, 0, 0, 0, 2, 0, 0], m_total_level := 0x5000,
            m_dest_total_level := 1, m_total_level_step := - 152\<rparr>"
  have init': "drop_bit (TL_SHIFT ref_chip) (m_total_level ?high) \<le> 0x7f"
    by (simp add: ramp_slot_def ref_eval)
  have w': "write_slot ref_chip ?high 5 2 = Some ?fall"
    by (simp add: write_slot_def ramp_slot_def ref_eval)
  have run': "slot_ticks ref_chip 0 ?fall = Some ?fall" by simp
  have tick': "slot_tick ref_chip ?fall = Some (?fall\<lparr>m_total_level := 0x4F68\<rparr>, 0, 0)"
    by (simp add: render_eval ramp_slot_def ref_eval)
  from total_level_ramp[OF T lo hi init w run tick]
    total_level_ramp[OF T lo hi init' w' run' tick']
    T w run tick init w' tick'
  show ?thesis by (simp add: ramp_slot_def ref_eval)
qed

section \<open>The renderer, voice by voice\<close>

text \<open>
  \<^verbatim>\<open>sound_stream_update\<close> handles the voices one after the other and no voice reads
  another: over \<open>n\<close> output samples, voice \<open>i\<close> of the device goes through \<open>slot_ticks\<close>.
\<close>

lemma render_slots_nth:
  "render_slots c slots = Some (slots', l, r) \<Longrightarrow>
     length slots' = length slots
     \<and> (\<forall>i<length slots. \<exists>li ri. slot_tick c (slots ! i) = Some (slots' ! i, li, ri))"
proof (induction slots arbitrary: slots' l r)
  case Nil
  then show ?case by simp
next
  case (Cons slot rest)
  from Cons.prems obtain s' l1 r1 rest' l2 r2 where
    t: "slot_tick c slot = Some (s', l1, r1)" and
    rs: "render_slots c rest = Some (rest', l2, r2)" and
    e: "slots' = s' # rest'"
    by (auto split: Option.bind_splits)
  from Cons.IH[OF rs] have len: "length rest' = length rest"
    and nth: "\<And>i. i < length rest \<Longrightarrow> \<exists>li ri. slot_tick c (rest ! i) = Some (rest' ! i, li, ri)"
    by simp_all
  have "\<exists>li ri. slot_tick c ((slot # rest) ! i) = Some (slots' ! i, li, ri)"
    if "i < length (slot # rest)" for i
  proof (cases i)
    case 0
    then show ?thesis using t e by simp
  next
    case (Suc j)
    then show ?thesis using that nth[of j] e by simp
  qed
  then show ?case using len e by simp
qed

lemma sound_stream_update_slot_ticks:
  "sound_stream_update c d n = Some (d', out) \<Longrightarrow> i < length (m_slots d) \<Longrightarrow>
     slot_ticks c n (m_slots d ! i) = Some (m_slots d' ! i)"
proof (induction n arbitrary: d out)
  case 0
  then show ?case by simp
next
  case (Suc n)
  from Suc.prems(1) obtain slots smpl smpr out' where
    rs: "render_slots c (m_slots d) = Some (slots, smpl, smpr)" and
    rest: "sound_stream_update c (d\<lparr>m_slots := slots\<rparr>) n = Some (d', out')"
    by (auto split: Option.bind_splits)
  from render_slots_nth[OF rs] Suc.prems(2) obtain li ri where
    len: "length slots = length (m_slots d)" and
    t: "slot_tick c (m_slots d ! i) = Some (slots ! i, li, ri)"
    by blast
  have "slot_ticks c n (slots ! i) = Some (m_slots d' ! i)"
    using Suc.IH[OF rest] Suc.prems(2) len by simp
  then show ?case using t by simp
qed

end
